theory Spec2Isabelle
  imports Main
begin

section \<open>The in-memory store of kv-server.c\<close>

text \<open>
  A value is a sequence of raw bytes. A C buffer \<open>(buf, len)\<close> is the list of its
  \<open>len\<close> bytes; a \<open>NULL\<close> buffer of length 0 is the empty list.
\<close>

type_synonym byte = char

text \<open>
  \<open>struct KVNode\<close>: the key is a C \<open>int\<close>, \<open>len\<close> a \<open>size_t\<close>, \<open>val\<close> the
  owned buffer. The \<open>next\<close> pointers are the list structure: \<open>kv_head\<close> is the list
  of nodes from the head.
\<close>

record KVNode =
  key :: int
  len :: nat
  val :: "byte list"

text \<open>
  The allocator is part of the environment. \<open>mallocs\<close> lists the outcomes of the
  coming calls of \<open>malloc\<close> (\<open>False\<close>: it returns \<open>NULL\<close>); calls beyond the list
  succeed. \<open>heap_log\<close> records every \<open>malloc\<close> and \<open>free\<close> in the order the
  code makes them.
\<close>

datatype heap_ev = Malloc nat bool | Free_buf "byte list" | Free_node

record sys =
  kv_head :: "KVNode list"
  mallocs :: "bool list"
  heap_log :: "heap_ev list"

definition sizeof_KVNode :: nat where
  "sizeof_KVNode = 32"

definition malloc :: "sys \<Rightarrow> nat \<Rightarrow> bool \<times> sys" where
  "malloc s n =
     (case mallocs s of
        [] \<Rightarrow> (True, s\<lparr>heap_log := heap_log s @ [Malloc n True]\<rparr>)
      | b # bs \<Rightarrow> (b, s\<lparr>mallocs := bs, heap_log := heap_log s @ [Malloc n b]\<rparr>))"

definition free_ev :: "sys \<Rightarrow> heap_ev \<Rightarrow> sys" where
  "free_ev s e = s\<lparr>heap_log := heap_log s @ [e]\<rparr>"

text \<open>\<open>kv_find\<close>: the first node with the key, from the head.\<close>

fun kv_find :: "KVNode list \<Rightarrow> int \<Rightarrow> KVNode option" where
  "kv_find [] k = None"
| "kv_find (p # ps) k = (if key p = k then Some p else kv_find ps k)"

text \<open>
  \<open>kv_create\<close>: \<open>-1\<close> when the key exists, \<open>-2\<close> when either allocation fails (the
  node is freed when the second one does), otherwise the new node becomes the head.
\<close>

definition kv_create :: "sys \<Rightarrow> int \<Rightarrow> byte list \<Rightarrow> int \<times> sys" where
  "kv_create s k buf =
     (if kv_find (kv_head s) k \<noteq> None then (- 1, s)
      else case malloc s sizeof_KVNode of
        (False, s1) \<Rightarrow> (- 2, s1)
      | (True, s1) \<Rightarrow>
          (case malloc s1 (length buf) of
             (False, s2) \<Rightarrow> (- 2, free_ev s2 Free_node)
           | (True, s2) \<Rightarrow>
               (0, s2\<lparr>kv_head := \<lparr>key = k, len = length buf, val = buf\<rparr> # kv_head s2\<rparr>)))"

text \<open>
  The node \<open>kv_find\<close> returns is a pointer into the list; \<open>node_assign\<close> is the write
  through that pointer: it replaces value and length of the first node with the key.
\<close>

fun node_assign :: "KVNode list \<Rightarrow> int \<Rightarrow> byte list \<Rightarrow> KVNode list" where
  "node_assign [] k nv = []"
| "node_assign (p # ps) k nv =
     (if key p = k then p\<lparr>val := nv, len := length nv\<rparr> # ps
      else p # node_assign ps k nv)"

text \<open>
  \<open>kv_update\<close>: \<open>-1\<close> when the key is absent; then the replacement buffer is
  allocated (\<open>-2\<close> when that fails), the old buffer is freed and the new one installed.
\<close>

definition kv_update :: "sys \<Rightarrow> int \<Rightarrow> byte list \<Rightarrow> int \<times> sys" where
  "kv_update s k buf =
     (case kv_find (kv_head s) k of
        None \<Rightarrow> (- 1, s)
      | Some n \<Rightarrow>
          (case malloc s (length buf) of
             (False, s1) \<Rightarrow> (- 2, s1)
           | (True, s1) \<Rightarrow>
               (0, (free_ev s1 (Free_buf (val n)))
                     \<lparr>kv_head := node_assign (kv_head s1) k buf\<rparr>)))"

text \<open>
  \<open>kv_delete\<close> walks the list with \<open>prev\<close> and \<open>cur\<close>; \<open>kv_unlink\<close> is that walk:
  the first node with the key and the list without it, or \<open>None\<close> at the end.
\<close>

fun kv_unlink :: "KVNode list \<Rightarrow> int \<Rightarrow> (KVNode \<times> KVNode list) option" where
  "kv_unlink [] k = None"
| "kv_unlink (cur # rest) k =
     (if key cur = k then Some (cur, rest)
      else case kv_unlink rest k of
        None \<Rightarrow> None
      | Some (n, rest') \<Rightarrow> Some (n, cur # rest'))"

definition kv_delete :: "sys \<Rightarrow> int \<Rightarrow> int \<times> sys" where
  "kv_delete s k =
     (case kv_unlink (kv_head s) k of
        None \<Rightarrow> (- 1, s)
      | Some (cur, rest) \<Rightarrow>
          (0, (free_ev (free_ev s (Free_buf (val cur))) Free_node)\<lparr>kv_head := rest\<rparr>))"

section \<open>Sockets as event streams\<close>

text \<open>
  One connected socket. \<open>rd\<close> lists what the coming calls of \<open>read\<close> return, one
  byte per event (\<open>Data\<close>), or \<open>-1\<close> with \<open>EINTR\<close> or with another error; at the
  end of the list \<open>read\<close> returns 0 (the peer has closed). \<open>wr_evs\<close> lists what the
  coming calls of \<open>write\<close> do (\<open>Wrote k\<close>: at most \<open>k\<close> bytes accepted;
  \<open>Wr_fail\<close>: \<open>-1\<close> with an error other than \<open>EINTR\<close>; \<open>Wr_sigpipe\<close>: the peer
  has closed and reset the connection, the call raises \<open>SIGPIPE\<close>); calls beyond the
  list accept all they are given. \<open>sent\<close> is every byte accepted so far.

  Neither program installs a handler for \<open>SIGPIPE\<close>, ignores it, or sends with
  \<open>MSG_NOSIGNAL\<close>: the signal kills the process. A call that does not return because
  the process was killed has the result \<open>None\<close>.
\<close>

datatype rd_ev = Data byte | Rd_eintr | Rd_fail

datatype wr_ev = Wrote nat | Wr_eintr | Wr_fail | Wr_sigpipe

record conn =
  rd :: "rd_ev list"
  wr_evs :: "wr_ev list"
  sent :: "byte list"
  closed :: bool

abbreviation NUL :: char where
  "NUL \<equiv> CHR 0x00"

abbreviation NL :: char where
  "NL \<equiv> CHR 0x0A"

abbreviation CR :: char where
  "CR \<equiv> CHR 0x0D"

text \<open>
  The conversion \<open>(ssize_t)n\<close> of a \<open>size_t\<close> on an LP64 target: both are 64 bits
  wide.
\<close>

definition ssize_of :: "nat \<Rightarrow> int" where
  "ssize_of n =
     (let m = int n mod 2 ^ 64 in if m < 2 ^ 63 then m else m - 2 ^ 64)"

text \<open>
  The loop of \<open>write_n\<close>: the result code (\<open>None\<close>: killed by \<open>SIGPIPE\<close>), the
  events left, and the bytes accepted.
\<close>

fun write_loop :: "wr_ev list \<Rightarrow> byte list \<Rightarrow> int option \<times> wr_ev list \<times> byte list" where
  "write_loop es [] = (Some 0, es, [])"
| "write_loop [] bs = (Some 0, [], bs)"
| "write_loop (Wrote k # es) bs =
     (case write_loop es (drop k bs) of (rc, es', acc) \<Rightarrow> (rc, es', take k bs @ acc))"
| "write_loop (Wr_eintr # es) bs = write_loop es bs"
| "write_loop (Wr_fail # es) bs = (Some (- 1), es, [])"
| "write_loop (Wr_sigpipe # es) bs = (None, es, [])"

definition write_n :: "conn \<Rightarrow> byte list \<Rightarrow> int option \<times> conn" where
  "write_n c bs =
     (case write_loop (wr_evs c) bs of
        (rc, es, acc) \<Rightarrow> (rc, c\<lparr>wr_evs := es, sent := sent c @ acc\<rparr>))"

text \<open>
  The loop of \<open>read_n\<close>, with how it ended, the events left and the bytes stored in
  the buffer.
\<close>

datatype rd_status = Rd_full | Rd_eof | Rd_err

fun read_loop :: "rd_ev list \<Rightarrow> nat \<Rightarrow> rd_status \<times> rd_ev list \<times> byte list" where
  "read_loop [] left = (if left = 0 then (Rd_full, [], []) else (Rd_eof, [], []))"
| "read_loop (e # es) left =
     (if left = 0 then (Rd_full, e # es, [])
      else case e of
        Data b \<Rightarrow> (case read_loop es (left - 1) of (st, es', bs) \<Rightarrow> (st, es', b # bs))
      | Rd_eintr \<Rightarrow> read_loop es left
      | Rd_fail \<Rightarrow> (Rd_err, es, []))"

text \<open>
  \<open>read_n\<close> returns \<open>n\<close> when the buffer is full, the count read (\<open>n - left\<close>) when
  the peer closed early, \<open>-1\<close> on an error; all as \<open>ssize_t\<close>.
\<close>

definition read_n :: "conn \<Rightarrow> nat \<Rightarrow> int \<times> byte list \<times> conn" where
  "read_n c n =
     (case read_loop (rd c) n of
        (st, es, bs) \<Rightarrow>
          ((case st of Rd_full \<Rightarrow> ssize_of n | Rd_eof \<Rightarrow> ssize_of (length bs) | Rd_err \<Rightarrow> - 1),
           bs, c\<lparr>rd := es\<rparr>))"

text \<open>
  The loop of \<open>read_line\<close> (the same text in server and client) on the buffer \<open>buf\<close>
  of \<open>maxlen\<close> bytes, from position \<open>pos\<close>. At the end of the input it returns
  \<open>pos\<close> and leaves the buffer as it is, with no terminator written.
\<close>

fun read_line_loop ::
  "rd_ev list \<Rightarrow> byte list \<Rightarrow> nat \<Rightarrow> nat \<Rightarrow> int \<times> byte list \<times> rd_ev list" where
  "read_line_loop [] buf pos maxlen =
     (if pos + 1 < maxlen then ((if pos = 0 then 0 else ssize_of pos), buf, [])
      else (ssize_of pos, buf[pos := NUL], []))"
| "read_line_loop (e # es) buf pos maxlen =
     (if pos + 1 < maxlen then
        (case e of
           Rd_eintr \<Rightarrow> read_line_loop es buf pos maxlen
         | Rd_fail \<Rightarrow> (- 1, buf, es)
         | Data c \<Rightarrow>
             if c = NL then (ssize_of pos, buf[pos := NUL], es)
             else read_line_loop es (buf[pos := c]) (pos + 1) maxlen)
      else (ssize_of pos, buf[pos := NUL], e # es))"

definition read_line :: "conn \<Rightarrow> byte list \<Rightarrow> nat \<Rightarrow> int \<times> byte list \<times> conn" where
  "read_line c buf maxlen =
     (case read_line_loop (rd c) buf 0 maxlen of
        (r, buf', es) \<Rightarrow> (r, buf', c\<lparr>rd := es\<rparr>))"

text \<open>
  The C string held in a buffer: the bytes before the first \<open>NUL\<close>.
\<close>

definition cstr :: "byte list \<Rightarrow> string" where
  "cstr buf = takeWhile (\<lambda>c. c \<noteq> NUL) buf"

definition rtrim_cr :: "byte list \<Rightarrow> byte list" where
  "rtrim_cr s =
     (let n = length (cstr s)
      in if n > 0 \<and> s ! (n - 1) = CR then s[n - 1 := NUL] else s)"

section \<open>Scanning: the conversions of \<open>sscanf\<close>, \<open>strtol\<close> and \<open>strtoull\<close>\<close>

text \<open>
  \<open>isspace\<close> and \<open>isdigit\<close> in the C locale. Numbers are base 10. Where C leaves an
  out-of-range conversion open, the definitions follow glibc on LP64: \<open>strtol\<close>
  clamps to the range of \<open>long\<close>, \<open>strtoul\<close> to \<open>ULONG_MAX\<close>, a negated
  unsigned value wraps, and \<open>%d\<close> stores \<open>(int)\<close> of the \<open>long\<close>.
\<close>

definition isspace :: "char \<Rightarrow> bool" where
  "isspace c = (c \<in> set [CHR '' '', CHR 0x09, CHR 0x0A, CHR 0x0B, CHR 0x0C, CHR 0x0D])"

definition isdigit :: "char \<Rightarrow> bool" where
  "isdigit c = (c \<in> set ''0123456789'')"

definition digit_val :: "char \<Rightarrow> nat" where
  "digit_val c = of_char c - 48"

definition decimal :: "string \<Rightarrow> nat" where
  "decimal ds = foldl (\<lambda>a c. 10 * a + digit_val c) 0 ds"

definition skip_space :: "string \<Rightarrow> string" where
  "skip_space s = dropWhile isspace s"

text \<open>An optional sign, then the longest run of digits; \<open>None\<close> without a digit.\<close>

definition scan_number :: "string \<Rightarrow> (bool \<times> nat \<times> string) option" where
  "scan_number s =
     (let (neg, s1) =
            (case s of
               c # cs \<Rightarrow> if c = CHR ''-'' then (True, cs)
                          else if c = CHR ''+'' then (False, cs) else (False, s)
             | [] \<Rightarrow> (False, s));
          ds = takeWhile isdigit s1
      in if ds = [] then None else Some (neg, decimal ds, dropWhile isdigit s1))"

definition to_long :: "bool \<Rightarrow> nat \<Rightarrow> int" where
  "to_long neg n =
     (if neg then (if int n > 2 ^ 63 then - (2 ^ 63) else - int n)
      else (if int n > 2 ^ 63 - 1 then 2 ^ 63 - 1 else int n))"

definition to_int32 :: "int \<Rightarrow> int" where
  "to_int32 v = (v + 2 ^ 31) mod 2 ^ 32 - 2 ^ 31"

definition to_ulong :: "bool \<Rightarrow> nat \<Rightarrow> nat" where
  "to_ulong neg n =
     (if int n > 2 ^ 64 - 1 then nat (2 ^ 64 - 1)
      else if neg then nat ((2 ^ 64 - int n) mod 2 ^ 64) else n)"

text \<open>
  The conversions \<open>%d\<close> and \<open>%zu\<close> after skipped white space: the value stored
  and the rest of the input, or \<open>None\<close> when the conversion fails.
\<close>

definition conv_d :: "string \<Rightarrow> (int \<times> string) option" where
  "conv_d s =
     (case scan_number (skip_space s) of
        None \<Rightarrow> None
      | Some (neg, n, rest) \<Rightarrow> Some (to_int32 (to_long neg n), rest))"

definition conv_zu :: "string \<Rightarrow> (nat \<times> string) option" where
  "conv_zu s =
     (case scan_number (skip_space s) of
        None \<Rightarrow> None
      | Some (neg, n, rest) \<Rightarrow> Some (to_ulong neg n, rest))"

text \<open>
  \<open>%Ns\<close>: white space is skipped, then at most \<open>N\<close> characters that are not white
  space are taken; \<open>None\<close> when the input ends first.
\<close>

definition conv_s :: "nat \<Rightarrow> string \<Rightarrow> (string \<times> string) option" where
  "conv_s w s =
     (let s1 = skip_space s;
          tok = take w (takeWhile (\<lambda>c. \<not> isspace c) s1)
      in if s1 = [] then None else Some (tok, drop (length tok) s1))"

text \<open>
  \<open>sscanf(line, "%15s %d %zu", cmd, &key, &size)\<close>: what was converted. The return
  value is \<open>EOF\<close> when the line holds no token, otherwise the number of conversions.
\<close>

datatype scanned = Scan_eof | Scan1 string | Scan2 string int | Scan3 string int nat

definition sscanf_cmd :: "string \<Rightarrow> scanned" where
  "sscanf_cmd line =
     (case conv_s 15 line of
        None \<Rightarrow> Scan_eof
      | Some (cmd, r1) \<Rightarrow>
          (case conv_d r1 of
             None \<Rightarrow> Scan1 cmd
           | Some (k, r2) \<Rightarrow>
               (case conv_zu r2 of
                  None \<Rightarrow> Scan2 cmd k
                | Some (sz, r3) \<Rightarrow> Scan3 cmd k sz)))"

fun scan_count :: "scanned \<Rightarrow> int" where
  "scan_count Scan_eof = - 1"
| "scan_count (Scan1 cmd) = 1"
| "scan_count (Scan2 cmd k) = 2"
| "scan_count (Scan3 cmd k sz) = 3"

text \<open>The loop at line 158 of the server: letters \<open>a\<close> to \<open>z\<close> become upper case.\<close>

definition upcase_char :: "char \<Rightarrow> char" where
  "upcase_char c =
     (if (97::nat) \<le> of_char c \<and> of_char c \<le> (122::nat) then char_of (of_char c - (32::nat))
      else c)"

definition upcase :: "string \<Rightarrow> string" where
  "upcase s = map upcase_char s"

text \<open>\<open>%zu\<close> and \<open>%d\<close> of \<open>printf\<close>.\<close>

fun show_nat :: "nat \<Rightarrow> string" where
  "show_nat n =
     (if n < 10 then [char_of (48 + n)]
      else show_nat (n div 10) @ [char_of (48 + n mod 10)])"

declare show_nat.simps [simp del]

definition show_int :: "int \<Rightarrow> string" where
  "show_int i = (if i < 0 then CHR ''-'' # show_nat (nat (- i)) else show_nat (nat i))"

section \<open>The session handler of the server\<close>

text \<open>
  One pass of the loop continues, returns from \<open>handle_client\<close>, or ends with the
  process killed by \<open>SIGPIPE\<close>.
\<close>

datatype step = Continue | Return int | Killed

text \<open>
  A reply whose result the code ignores, \<open>write_n(cfd, em, strlen(em))\<close>, followed by
  the step \<open>st\<close> when the call returns.
\<close>

definition reply :: "step \<Rightarrow> sys \<Rightarrow> conn \<Rightarrow> string \<Rightarrow> step \<times> sys \<times> conn" where
  "reply st s c msg =
     (case write_n c msg of
        (None, c1) \<Rightarrow> (Killed, s, c1)
      | (Some r, c1) \<Rightarrow> (st, s, c1))"

definition store_value :: "sys \<Rightarrow> string \<Rightarrow> int \<Rightarrow> byte list \<Rightarrow> int \<times> sys" where
  "store_value s cmd k v = (if cmd = ''CREATE'' then kv_create s k v else kv_update s k v)"

definition store_reply :: "string \<Rightarrow> int \<Rightarrow> string" where
  "store_reply cmd rc =
     (if rc = 0 then ''OK'' @ [NL]
      else if rc = - 1 then
        (if cmd = ''CREATE'' then ''ERR key exists'' @ [NL] else ''ERR no such key'' @ [NL])
      else ''ERR internal error'' @ [NL])"

text \<open>
  The branch for \<open>CREATE\<close> and \<open>UPDATE\<close> (lines 160 to 201). With \<open>size = 0\<close> the
  value pointer stays \<open>NULL\<close> and nothing is allocated or freed here. The value handed
  to the store is the bytes \<open>read_n\<close> put into the buffer. The request buffer is freed
  before the reply is written.
\<close>

definition cmd_store :: "sys \<Rightarrow> conn \<Rightarrow> string \<Rightarrow> int \<Rightarrow> nat \<Rightarrow> step \<times> sys \<times> conn" where
  "cmd_store s c cmd k sz =
     (if sz = 0 \<and> cmd = ''UPDATE'' then
        reply Continue s c (''ERR size must be > 0'' @ [NL])
      else if sz > 0 then
        (case malloc s sz of
           (False, s1) \<Rightarrow> reply Continue s1 c (''ERR out of memory'' @ [NL])
         | (True, s1) \<Rightarrow>
             (case read_n c sz of
                (rr, v, c1) \<Rightarrow>
                  if rr \<noteq> ssize_of sz then
                    reply (Return (- 1)) (free_ev s1 (Free_buf v)) c1
                      (''ERR premature EOF on value'' @ [NL])
                  else
                    (case store_value s1 cmd k v of
                       (rc, s2) \<Rightarrow>
                         reply Continue (free_ev s2 (Free_buf v)) c1 (store_reply cmd rc))))
      else
        (case store_value s cmd k [] of
           (rc, s1) \<Rightarrow> reply Continue s1 c (store_reply cmd rc)))"

text \<open>
  The branch for \<open>READ\<close> (lines 204 to 218): the header \<open>OK <len>\<close>, then \<open>len\<close>
  bytes of the value; a failed write ends the session.
\<close>

definition cmd_read :: "sys \<Rightarrow> conn \<Rightarrow> int \<Rightarrow> step \<times> sys \<times> conn" where
  "cmd_read s c k =
     (case kv_find (kv_head s) k of
        None \<Rightarrow> reply Continue s c (''ERR no such key'' @ [NL])
      | Some n \<Rightarrow>
          (case write_n c (''OK '' @ show_nat (len n) @ [NL]) of
             (None, c1) \<Rightarrow> (Killed, s, c1)
           | (Some r1, c1) \<Rightarrow>
               if r1 < 0 then (Return (- 1), s, c1)
               else
                 (case write_n c1 (take (len n) (val n)) of
                    (None, c2) \<Rightarrow> (Killed, s, c2)
                  | (Some r2, c2) \<Rightarrow>
                      if r2 < 0 then (Return (- 1), s, c2) else (Continue, s, c2))))"

definition cmd_delete :: "sys \<Rightarrow> conn \<Rightarrow> int \<Rightarrow> step \<times> sys \<times> conn" where
  "cmd_delete s c k =
     (case kv_delete s k of
        (rc, s1) \<Rightarrow>
          reply Continue s1 c (if rc = 0 then ''OK'' @ [NL] else ''ERR no such key'' @ [NL]))"

text \<open>The dispatch on the upper-cased keyword (lines 160 to 234).\<close>

definition exec_command :: "sys \<Rightarrow> conn \<Rightarrow> string \<Rightarrow> int \<Rightarrow> nat \<Rightarrow> step \<times> sys \<times> conn" where
  "exec_command s c cmd k sz =
     (if cmd = ''CREATE'' \<or> cmd = ''UPDATE'' then cmd_store s c cmd k sz
      else if cmd = ''READ'' then cmd_read s c k
      else if cmd = ''DELETE'' then cmd_delete s c k
      else reply Continue s c (''ERR unknown command'' @ [NL]))"

text \<open>
  The body of the loop after \<open>read_line\<close> (lines 147 to 240), on the line buffer and
  the length \<open>ln\<close> that \<open>read_line\<close> returned. \<open>size\<close> starts at 0 and keeps that
  value when \<open>sscanf\<close> converts two fields only.
\<close>

definition serve_line ::
  "sys \<Rightarrow> conn \<Rightarrow> byte list \<Rightarrow> int \<Rightarrow> step \<times> sys \<times> conn \<times> byte list" where
  "serve_line s c line ln =
     (let line1 = rtrim_cr line;
          r = sscanf_cmd (cstr line1)
      in if scan_count r \<ge> 2 then
           (case (case r of
                    Scan3 cmd k sz \<Rightarrow> exec_command s c (upcase cmd) k sz
                  | Scan2 cmd k \<Rightarrow> exec_command s c (upcase cmd) k 0
                  | _ \<Rightarrow> (Continue, s, c)) of
              (st, s1, c1) \<Rightarrow> (st, s1, c1, line1))
         else if ln = 0 then (Return 0, s, c, line1)
         else
           (case reply Continue s c (''ERR malformed command'' @ [NL]) of
              (st, s1, c1) \<Rightarrow> (st, s1, c1, line1)))"

text \<open>
  Every pass of the loop that goes on has taken at least one event from the input,
  so the loop of \<open>handle_client\<close> ends on every finite input.
\<close>

lemma read_line_loop_consumes:
  "read_line_loop es buf pos maxlen = (r, buf', es') \<Longrightarrow>
     length es' \<le> length es \<and> (length es' = length es \<longrightarrow> r = ssize_of pos)"
proof (induction es buf pos maxlen arbitrary: r buf' es' rule: read_line_loop.induct)
  case (1 buf pos maxlen)
  then show ?case by (auto simp: ssize_of_def split: if_splits)
next
  case (2 e es buf pos maxlen)
  show ?case
  proof (cases "pos + 1 < maxlen")
    case False
    with "2.prems" show ?thesis by simp
  next
    case True
    show ?thesis
    proof (cases e)
      case (Data c)
      show ?thesis
      proof (cases "c = NL")
        case True
        with Data \<open>pos + 1 < maxlen\<close> "2.prems" show ?thesis by auto
      next
        case False
        with Data \<open>pos + 1 < maxlen\<close> "2.prems"
        have "read_line_loop es (buf[pos := c]) (pos + 1) maxlen = (r, buf', es')" by simp
        from "2.IH"(1) [OF \<open>pos + 1 < maxlen\<close> Data False this]
        show ?thesis by simp
      qed
    next
      case Rd_eintr
      with True "2.prems"
      have "read_line_loop es buf pos maxlen = (r, buf', es')" by simp
      from "2.IH"(2) [OF True Rd_eintr this] show ?thesis by simp
    next
      case Rd_fail
      with True "2.prems" show ?thesis by auto
    qed
  qed
qed

lemma read_line_consumes:
  "read_line c buf maxlen = (ln, buf', c') \<Longrightarrow> ln \<noteq> 0 \<Longrightarrow> length (rd c') < length (rd c)"
  using read_line_loop_consumes [of "rd c" buf 0 maxlen]
  by (auto simp: read_line_def ssize_of_def split: prod.splits)

lemma rd_write_n [simp]: "rd (snd (write_n c bs)) = rd c"
  by (simp add: write_n_def split: prod.splits)

lemma rd_write_n': "write_n c bs = (r, c') \<Longrightarrow> rd c' = rd c"
  by (auto simp: write_n_def split: prod.splits)

lemma rd_reply: "reply st s c msg = (st', s', c') \<Longrightarrow> rd c' = rd c"
  by (auto simp: reply_def split: prod.splits option.splits dest: rd_write_n')

lemma read_loop_0 [simp]: "read_loop es 0 = (Rd_full, es, [])"
  by (cases es) auto

lemma read_loop_length: "read_loop es n = (st, es', bs) \<Longrightarrow> length es' \<le> length es"
proof (induction es arbitrary: n st es' bs)
  case Nil
  then show ?case by (auto split: if_splits)
next
  case (Cons e es)
  show ?case
  proof (cases "n = 0")
    case True
    with Cons.prems show ?thesis by simp
  next
    case False
    show ?thesis
    proof (cases e)
      case (Data b)
      obtain st1 es1 bs1 where r: "read_loop es (n - 1) = (st1, es1, bs1)"
        by (cases "read_loop es (n - 1)") auto
      with Cons.prems False Data have "es' = es1" by simp
      with Cons.IH [OF r] show ?thesis by simp
    next
      case Rd_eintr
      with Cons.prems False have "read_loop es n = (st, es', bs)" by simp
      from Cons.IH [OF this] show ?thesis by simp
    next
      case Rd_fail
      with Cons.prems False show ?thesis by auto
    qed
  qed
qed

lemma read_n_length: "read_n c n = (rr, bs, c') \<Longrightarrow> length (rd c') \<le> length (rd c)"
  by (auto simp: read_n_def split: prod.splits dest: read_loop_length)

lemma cmd_store_length: "cmd_store s c cmd k sz = (st, s', c') \<Longrightarrow> length (rd c') \<le> length (rd c)"
  unfolding cmd_store_def
  by (auto split: if_splits prod.splits bool.splits dest!: rd_reply dest: read_n_length)

lemma cmd_read_length: "cmd_read s c k = (st, s', c') \<Longrightarrow> length (rd c') \<le> length (rd c)"
  unfolding cmd_read_def
  by (auto split: if_splits prod.splits option.splits dest!: rd_write_n' rd_reply)

lemma cmd_delete_length: "cmd_delete s c k = (st, s', c') \<Longrightarrow> length (rd c') \<le> length (rd c)"
  by (auto simp: cmd_delete_def split: if_splits prod.splits dest!: rd_reply)

lemma exec_command_length:
  "exec_command s c cmd k sz = (st, s', c') \<Longrightarrow> length (rd c') \<le> length (rd c)"
  by (auto simp: exec_command_def split: if_splits
      dest: cmd_store_length cmd_read_length cmd_delete_length dest!: rd_reply)

lemma serve_line_length:
  "serve_line s c line ln = (st, s', c', line') \<Longrightarrow> length (rd c') \<le> length (rd c)"
  by (auto simp: serve_line_def Let_def split: if_splits prod.splits scanned.splits
      dest: exec_command_length dest!: rd_reply)

lemma handle_client_decreases:
  "read_line c line n = (ln, line1, c1) \<Longrightarrow> ln \<noteq> 0 \<Longrightarrow>
   serve_line s c1 line1 ln = (st, s2, c2, line2) \<Longrightarrow> length (rd c2) < length (rd c)"
  using read_line_consumes [of c line n ln line1 c1] serve_line_length [of s c1 line1 ln st s2 c2 line2]
  by simp

text \<open>
  \<open>handle_client\<close>: the loop over control lines, on the 4096-byte buffer \<open>line\<close>
  (a local array, so its first content is whatever the stack holds). It returns 0 when
  \<open>read_line\<close> returns 0 and \<open>-1\<close> when it fails; the result is \<open>None\<close> when a
  write raised \<open>SIGPIPE\<close> and the process was killed inside the handler.
\<close>

function handle_client :: "sys \<Rightarrow> conn \<Rightarrow> byte list \<Rightarrow> int option \<times> sys \<times> conn" where
  "handle_client s c line =
     (case read_line c line 4096 of
        (ln, line1, c1) \<Rightarrow>
          if ln = 0 then (Some 0, s, c1)
          else if ln < 0 then (Some (- 1), s, c1)
          else
            (case serve_line s c1 line1 ln of
               (Return rc, s2, c2, line2) \<Rightarrow> (Some rc, s2, c2)
             | (Continue, s2, c2, line2) \<Rightarrow> handle_client s2 c2 line2
             | (Killed, s2, c2, line2) \<Rightarrow> (None, s2, c2)))"
  by pat_completeness auto

termination handle_client
  apply (relation "measure (\<lambda>(s, c, line). length (rd c))")
   apply simp
  apply (auto dest: handle_client_decreases [OF sym _ sym] handle_client_decreases)
  done

text \<open>
  The accept loop of \<open>main\<close>, on the results of the coming calls of \<open>accept\<close>:
  a failure, or a connection together with the first content of the handler's line
  buffer. Each connection is served to its end and closed, whatever the handler
  returned; the store lives on. The connections come back in the state they were
  left in, and the last component tells whether the server is still running: when the
  process is killed inside the handler, that connection is not closed and no further
  connection is accepted.
\<close>

datatype accepted = Accept_fail | Accepted conn "byte list"

fun accept_loop :: "sys \<Rightarrow> accepted list \<Rightarrow> sys \<times> conn list \<times> bool" where
  "accept_loop s [] = (s, [], True)"
| "accept_loop s (Accept_fail # acs) = accept_loop s acs"
| "accept_loop s (Accepted c line # acs) =
     (case handle_client s c line of
        (None, s1, c1) \<Rightarrow> (s1, [c1], False)
      | (Some rc, s1, c1) \<Rightarrow>
          (case accept_loop s1 acs of
             (s2, cs, alive) \<Rightarrow> (s2, c1\<lparr>closed := True\<rparr> # cs, alive)))"

declare handle_client.simps [simp del]

section \<open>The client: kv-client.c\<close>

text \<open>
  The client process. \<open>conn_fd\<close> is the global descriptor (\<open>-1\<close>: not connected) and
  \<open>sock\<close> the socket it names. \<open>out\<close> and \<open>err\<close> are what was printed to standard
  output and standard error. \<open>net_log\<close> lists the network calls made outside reads and
  writes on \<open>sock\<close>. The environment: \<open>resolver\<close> holds the results of the coming
  calls of \<open>getaddrinfo\<close> (\<open>None\<close>, and any call beyond the list: an error), each
  address with the descriptor \<open>socket\<close> returns for it (\<open>-1\<close>: failure), whether
  \<open>connect\<close> succeeds, and the connection that results; \<open>cmallocs\<close> the outcomes of
  the coming calls of \<open>malloc\<close>. \<open>ended\<close> tells how the process ended, if it did:
  the status passed to \<open>exit\<close>, or killed by \<open>SIGPIPE\<close>.
\<close>

datatype ending = Exit int | Sigpipe

datatype addr = Addr int bool conn

datatype net_ev = Getaddrinfo string string | Socket_call | Connect_call int | Close_call int

record client =
  conn_fd :: int
  sock :: conn
  out :: string
  err :: string
  net_log :: "net_ev list"
  resolver :: "addr list option list"
  cmallocs :: "bool list"
  ended :: "ending option"

text \<open>
  The loop of \<open>connect_to\<close> over the addresses: the descriptor it ends with, the
  connection made, and the calls.
\<close>

fun connect_loop :: "addr list \<Rightarrow> int \<times> conn option \<times> net_ev list" where
  "connect_loop [] = (- 1, None, [])"
| "connect_loop (Addr fd ok link # rp) =
     (if fd = - 1 then
        (case connect_loop rp of (r, l, evs) \<Rightarrow> (r, l, Socket_call # evs))
      else if ok then (fd, Some link, [Socket_call, Connect_call fd])
      else
        (case connect_loop rp of
           (r, l, evs) \<Rightarrow> (r, l, Socket_call # Connect_call fd # Close_call fd # evs)))"

definition connect_to :: "client \<Rightarrow> string \<Rightarrow> int \<Rightarrow> int \<times> client" where
  "connect_to cl host port =
     (if conn_fd cl \<noteq> - 1 then (- 2, cl)
      else
        let cl1 = cl\<lparr>net_log := net_log cl @ [Getaddrinfo host (show_int port)]\<rparr>
        in case resolver cl of
             [] \<Rightarrow> (- 3, cl1)
           | None # rs \<Rightarrow> (- 3, cl1\<lparr>resolver := rs\<rparr>)
           | Some res # rs \<Rightarrow>
               (case connect_loop res of
                  (fd, l, evs) \<Rightarrow>
                    let cl2 = cl1\<lparr>resolver := rs, net_log := net_log cl1 @ evs\<rparr>
                    in if fd = - 1 then (- 4, cl2)
                       else (0, cl2\<lparr>conn_fd := fd, sock := (case l of Some c \<Rightarrow> c | None \<Rightarrow> sock cl2)\<rparr>)))"

definition disconnect_now :: "client \<Rightarrow> client" where
  "disconnect_now cl =
     (if conn_fd cl \<noteq> - 1 then
        cl\<lparr>net_log := net_log cl @ [Close_call (conn_fd cl)],
           sock := (sock cl)\<lparr>closed := True\<rparr>, conn_fd := - 1\<rparr>
      else cl)"

text \<open>
  \<open>send_cmd_with_optional_value\<close>; the value pointer is \<open>None\<close> for \<open>NULL\<close>.
  \<open>perror\<close> prints the name and the text of \<open>errno\<close>, which is left out here. The
  result is \<open>None\<close> when a write raised \<open>SIGPIPE\<close>.
\<close>

definition send_cmd_with_optional_value ::
  "client \<Rightarrow> string \<Rightarrow> byte list option \<Rightarrow> nat \<Rightarrow> int option \<times> client" where
  "send_cmd_with_optional_value cl header v vlen =
     (if conn_fd cl = - 1 then (Some (- 1), cl\<lparr>err := err cl @ ''ERROR: not connected'' @ [NL]\<rparr>)
      else
        case write_n (sock cl) header of
          (None, c1) \<Rightarrow> (None, cl\<lparr>sock := c1, ended := Some Sigpipe\<rparr>)
        | (Some r1, c1) \<Rightarrow>
            if r1 < 0 then (Some (- 1), cl\<lparr>sock := c1, err := err cl @ ''write: '' @ [NL]\<rparr>)
            else if vlen > 0 \<and> v \<noteq> None then
              (case write_n c1 (take vlen (the v)) of
                 (None, c2) \<Rightarrow> (None, cl\<lparr>sock := c2, ended := Some Sigpipe\<rparr>)
               | (Some r2, c2) \<Rightarrow>
                   if r2 < 0 then (Some (- 1), cl\<lparr>sock := c2, err := err cl @ ''write: '' @ [NL]\<rparr>)
                   else (Some 0, cl\<lparr>sock := c2\<rparr>))
            else (Some 0, cl\<lparr>sock := c1\<rparr>))"

text \<open>
  \<open>recv_status_and_optional_value\<close>, on the 8192-byte local buffer whose first
  content is \<open>stack\<close>. \<open>sscanf(line, "OK %zu", &sz)\<close> converts what follows the two
  letters; the value is printed with \<open>%s\<close>, that is up to its first \<open>NUL\<close>.
\<close>

definition recv_status_and_optional_value :: "client \<Rightarrow> byte list \<Rightarrow> int \<times> client" where
  "recv_status_and_optional_value cl stack =
     (if conn_fd cl = - 1 then (- 1, cl\<lparr>err := err cl @ ''ERROR: not connected'' @ [NL]\<rparr>)
      else
        case read_line (sock cl) stack 8192 of
          (ln, line, c1) \<Rightarrow>
            if ln \<le> 0 then
              (- 1, cl\<lparr>sock := c1, err := err cl @ ''ERROR: server closed or read error'' @ [NL]\<rparr>)
            else
              let str = cstr (rtrim_cr line)
              in if take 2 str = ''OK'' then
                   (case conv_zu (drop 2 str) of
                      Some (sz, r) \<Rightarrow>
                        (case cmallocs cl of
                           False # ms \<Rightarrow>
                             (- 1, cl\<lparr>sock := c1, cmallocs := ms, err := err cl @ ''ERROR: OOM'' @ [NL]\<rparr>)
                         | ms \<Rightarrow>
                             (case read_n c1 sz of
                                (rr, v, c2) \<Rightarrow>
                                  if rr \<noteq> ssize_of sz then
                                    (- 1, cl\<lparr>sock := c2, cmallocs := tl ms,
                                            err := err cl @ ''ERROR: truncated value from server'' @ [NL]\<rparr>)
                                  else
                                    (0, cl\<lparr>sock := c2, cmallocs := tl ms,
                                           out := out cl @ cstr (v @ [NUL]) @ [NL]\<rparr>)))
                    | None \<Rightarrow> (0, cl\<lparr>sock := c1, out := out cl @ ''OK'' @ [NL]\<rparr>))
                 else if take 3 str = ''ERR'' then
                   (- 1, cl\<lparr>sock := c1, out := out cl @ str @ [NL]\<rparr>)
                 else
                   (- 1, cl\<lparr>sock := c1, out := out cl @ ''ERR unexpected response: '' @ str @ [NL]\<rparr>))"

text \<open>
  \<open>split_key_size_value\<close>: the command word is skipped, then the key token and the
  size token are taken (each at most 63 characters), one white-space character after
  the size is skipped, and the rest is the value. \<open>strtol\<close> and \<open>strtoull\<close> give 0
  for a token with no digits.
\<close>

definition strtol_int :: "string \<Rightarrow> int" where
  "strtol_int tok =
     (case scan_number (skip_space tok) of
        None \<Rightarrow> 0
      | Some (neg, n, r) \<Rightarrow> to_int32 (to_long neg n))"

definition strtoull_size :: "string \<Rightarrow> nat" where
  "strtoull_size tok =
     (case scan_number (skip_space tok) of
        None \<Rightarrow> 0
      | Some (neg, n, r) \<Rightarrow> to_ulong neg n)"

definition split_key_size_value :: "string \<Rightarrow> (int \<times> nat \<times> string) option" where
  "split_key_size_value orig =
     (let p1 = skip_space (dropWhile (\<lambda>c. \<not> isspace c) orig);
          keybuf = takeWhile (\<lambda>c. \<not> isspace c) p1;
          p2 = skip_space (dropWhile (\<lambda>c. \<not> isspace c) p1);
          sizebuf = takeWhile (\<lambda>c. \<not> isspace c) p2;
          p3 = dropWhile (\<lambda>c. \<not> isspace c) p2
      in if keybuf = [] then None
         else if length keybuf \<ge> 64 then None
         else if sizebuf = [] then None
         else if length sizebuf \<ge> 64 then None
         else Some (strtol_int keybuf, strtoull_size sizebuf,
                    (case p3 of [] \<Rightarrow> [] | c # cs \<Rightarrow> if isspace c then cs else p3)))"

text \<open>
  The scans of \<open>handle_local_command\<close>: \<open>"%*s %255s %d"\<close> must convert host and
  port, \<open>"%*s %d"\<close> the key; \<open>%*s\<close> skips one token of any length.
\<close>

definition scan_connect :: "string \<Rightarrow> (string \<times> int) option" where
  "scan_connect line =
     (case conv_s (length line) line of
        None \<Rightarrow> None
      | Some (w, r1) \<Rightarrow>
          (case conv_s 255 r1 of
             None \<Rightarrow> None
           | Some (host, r2) \<Rightarrow>
               (case conv_d r2 of None \<Rightarrow> None | Some (port, r3) \<Rightarrow> Some (host, port))))"

definition scan_key :: "string \<Rightarrow> int option" where
  "scan_key line =
     (case conv_s (length line) line of
        None \<Rightarrow> None
      | Some (w, r1) \<Rightarrow> (case conv_d r1 of None \<Rightarrow> None | Some (k, r2) \<Rightarrow> Some k))"

definition tolower_char :: "char \<Rightarrow> char" where
  "tolower_char c =
     (if (65::nat) \<le> of_char c \<and> of_char c \<le> (90::nat) then char_of (of_char c + (32::nat))
      else c)"

text \<open>
  The copy of the input line (\<open>strncpy\<close> into 8192 bytes, so at most 8191 characters
  of the C string) and its first word in lower case, at most 15 characters; empty when
  the line is blank.
\<close>

definition line_copy :: "string \<Rightarrow> string" where
  "line_copy line_raw = take 8191 (cstr line_raw)"

definition command_word :: "string \<Rightarrow> string" where
  "command_word line_raw =
     (case conv_s 15 (line_copy line_raw) of
        None \<Rightarrow> []
      | Some (w, r) \<Rightarrow> map tolower_char w)"

definition print :: "client \<Rightarrow> string \<Rightarrow> client" where
  "print cl msg = cl\<lparr>out := out cl @ msg\<rparr>"

definition help_text :: string where
  "help_text =
     ''Commands:'' @ [NL] @
     ''  connect <ip> <port>'' @ [NL] @
     ''  disconnect'' @ [NL] @
     ''  create <key> <value-size> <value>'' @ [NL] @
     ''  read <key>'' @ [NL] @
     ''  update <key> <value-size> <value>'' @ [NL] @
     ''  delete <key>'' @ [NL] @
     ''  quit | exit | help'' @ [NL]"

text \<open>
  \<open>handle_local_command\<close> on one input line; \<open>stack\<close> is the first content of the
  receive buffer, should a reply be read. For \<open>read\<close> and \<open>delete\<close> the reply is read
  whatever the send returned.
\<close>

definition handle_local_command :: "client \<Rightarrow> string \<Rightarrow> byte list \<Rightarrow> client" where
  "handle_local_command cl line_raw stack =
     (let line = line_copy line_raw;
          first = command_word line_raw
      in if first = [] then cl
         else if first = ''connect'' then
           (case scan_connect line of
              None \<Rightarrow> print cl (''ERR usage: connect <server-ip> <server-port>'' @ [NL])
            | Some (host, port) \<Rightarrow>
                (case connect_to cl host port of
                   (rc, cl1) \<Rightarrow>
                     if rc = 0 then print cl1 (''OK'' @ [NL])
                     else if rc = - 2 then print cl1 (''ERR already connected'' @ [NL])
                     else print cl1 (''ERR connect failed'' @ [NL])))
         else if first = ''disconnect'' then print (disconnect_now cl) (''OK'' @ [NL])
         else if first = ''quit'' \<or> first = ''exit'' then
           (if conn_fd cl \<noteq> - 1 then disconnect_now cl else cl)\<lparr>ended := Some (Exit 0)\<rparr>
         else if first = ''help'' then print cl help_text
         else if conn_fd cl = - 1 then print cl (''ERR not connected'' @ [NL])
         else if first = ''create'' \<or> first = ''update'' then
           (case split_key_size_value line of
              None \<Rightarrow> print cl (''ERR usage: '' @ first @ '' <key> <value-size> <value>'' @ [NL])
            | Some (k, sz, v) \<Rightarrow>
                if length v \<noteq> sz then
                  print cl (''ERR value-size ('' @ show_nat sz @
                            '') does not match actual length ('' @ show_nat (length v) @ '')'' @ [NL])
                else
                  (case send_cmd_with_optional_value cl
                          ((if first = ''create'' then ''CREATE'' else ''UPDATE'') @ '' '' @
                           show_int k @ '' '' @ show_nat sz @ [NL]) (Some v) sz of
                     (None, cl1) \<Rightarrow> cl1
                   | (Some r, cl1) \<Rightarrow>
                       if r = 0 then snd (recv_status_and_optional_value cl1 stack) else cl1))
         else if first = ''read'' then
           (case scan_key line of
              None \<Rightarrow> print cl (''ERR usage: read <key>'' @ [NL])
            | Some k \<Rightarrow>
                (case send_cmd_with_optional_value cl (''READ '' @ show_int k @ [NL]) None 0 of
                   (None, cl1) \<Rightarrow> cl1
                 | (Some r, cl1) \<Rightarrow> snd (recv_status_and_optional_value cl1 stack)))
         else if first = ''delete'' then
           (case scan_key line of
              None \<Rightarrow> print cl (''ERR usage: delete <key>'' @ [NL])
            | Some k \<Rightarrow>
                (case send_cmd_with_optional_value cl (''DELETE '' @ show_int k @ [NL]) None 0 of
                   (None, cl1) \<Rightarrow> cl1
                 | (Some r, cl1) \<Rightarrow> snd (recv_status_and_optional_value cl1 stack)))
         else print cl (''ERR unknown command (type 'help')'' @ [NL]))"


section \<open>Predicates and inputs used in the statements\<close>

text \<open>
  \<open>allocs_ok n s\<close>: the next \<open>n\<close> calls of \<open>malloc\<close> succeed. \<open>kv_unique\<close>: no
  two nodes of the list carry the same key. \<open>sys0\<close> is the server at start-up:
  \<open>kv_head = NULL\<close>, any allocator.
\<close>

definition allocs_ok :: "nat \<Rightarrow> sys \<Rightarrow> bool" where
  "allocs_ok n s = (False \<notin> set (take n (mallocs s)))"

definition kv_unique :: "KVNode list \<Rightarrow> bool" where
  "kv_unique ns = distinct (map key ns)"

definition sys0 :: "bool list \<Rightarrow> sys" where
  "sys0 ms = \<lparr>kv_head = [], mallocs = ms, heap_log = []\<rparr>"

text \<open>The bytes delivered by a run of read events.\<close>

fun data_of :: "rd_ev list \<Rightarrow> byte list" where
  "data_of [] = []"
| "data_of (Data b # es) = b # data_of es"
| "data_of (Rd_eintr # es) = data_of es"
| "data_of (Rd_fail # es) = data_of es"

text \<open>
  Concrete inputs for the examples that follow: a fresh connection with the given
  input, whose writes are all accepted, a store that holds \<open>ab\<close> under key 1, and
  a line buffer of 4096 \<open>NUL\<close> bytes.
\<close>

definition conn_of :: "rd_ev list \<Rightarrow> conn" where
  "conn_of es = \<lparr>rd = es, wr_evs = [], sent = [], closed = False\<rparr>"

definition store_ab :: sys where
  "store_ab = \<lparr>kv_head = [\<lparr>key = 1, len = 2, val = ''ab''\<rparr>], mallocs = [], heap_log = []\<rparr>"

definition blank_line :: "byte list" where
  "blank_line = replicate 4096 NUL"

text \<open>
  A connection whose client sends a \<open>READ\<close>, then a \<open>CREATE\<close> that declares five
  value bytes, then three bytes, and closes. The first reply is taken by the socket (16
  bytes); the peer answers it with a reset, so the next write raises \<open>SIGPIPE\<close>.
\<close>

definition reset_conn :: conn where
  "reset_conn =
     \<lparr>rd = map Data (''READ 9'' @ [NL] @ ''CREATE 1 5'' @ [NL] @ ''hel''),
      wr_evs = [Wrote 16, Wr_sigpipe], sent = [], closed = False\<rparr>"

text \<open>
  A connected client for the examples: descriptor 3 on a fresh socket, nothing printed.
\<close>

definition client3 :: client where
  "client3 = \<lparr>conn_fd = 3, sock = conn_of [], out = [], err = [], net_log = [],
               resolver = [], cmallocs = [], ended = None\<rparr>"

section \<open>The store: uniqueness of keys, create, read and update\<close>

lemma malloc_ok:
  "allocs_ok (Suc n) s \<Longrightarrow>
     \<exists>s'. malloc s m = (True, s') \<and> kv_head s' = kv_head s \<and> allocs_ok n s' \<and>
          heap_log s' = heap_log s @ [Malloc m True]"
  by (cases "mallocs s") (auto simp: malloc_def allocs_ok_def)

lemma kv_head_malloc: "kv_head (snd (malloc s m)) = kv_head s"
  by (simp add: malloc_def split: list.splits)

lemma kv_find_None_iff: "kv_find ns k = None \<longleftrightarrow> k \<notin> key ` set ns"
  by (induction ns) auto

lemma kv_find_Some_key: "kv_find ns k = Some n \<Longrightarrow> key n = k \<and> n \<in> set ns"
  by (induction ns) (auto split: if_splits)

lemma map_key_node_assign: "map key (node_assign ns k v) = map key ns"
  by (induction ns) auto

lemma kv_find_node_assign:
  "kv_find ns k = Some n \<Longrightarrow> kv_find (node_assign ns k v) k = Some (n\<lparr>val := v, len := length v\<rparr>)"
  by (induction ns) auto

lemma kv_find_node_assign_other:
  "k' \<noteq> k \<Longrightarrow> kv_find (node_assign ns k v) k' = kv_find ns k'"
  by (induction ns) auto

lemma kv_unlink_keys:
  "kv_unlink ns k = Some (n, rest) \<Longrightarrow> distinct (map key ns) \<Longrightarrow> distinct (map key rest) \<and> set rest \<subseteq> set ns"
proof (induction ns arbitrary: n rest)
  case Nil
  then show ?case by simp
next
  case (Cons a ns)
  show ?case
  proof (cases "key a = k")
    case True
    with Cons.prems show ?thesis by auto
  next
    case False
    with Cons.prems obtain rest' where u: "kv_unlink ns k = Some (n, rest')" and r: "rest = a # rest'"
      by (auto split: option.splits)
    from Cons.IH [OF u] Cons.prems(2)
    have "distinct (map key rest')" "set rest' \<subseteq> set ns" by auto
    with r Cons.prems(2) show ?thesis by auto
  qed
qed

lemma kv_create_unique:
  "kv_unique (kv_head s) \<Longrightarrow> kv_unique (kv_head (snd (kv_create s k v)))"
  by (auto simp: kv_create_def kv_unique_def malloc_def free_ev_def kv_find_None_iff
      split: prod.splits bool.splits list.splits)

lemma kv_update_unique:
  "kv_unique (kv_head s) \<Longrightarrow> kv_unique (kv_head (snd (kv_update s k v)))"
  by (auto simp: kv_update_def kv_unique_def malloc_def free_ev_def map_key_node_assign
      split: prod.splits bool.splits list.splits option.splits)

lemma kv_delete_unique:
  "kv_unique (kv_head s) \<Longrightarrow> kv_unique (kv_head (snd (kv_delete s k)))"
  by (auto simp: kv_delete_def kv_unique_def free_ev_def
      split: prod.splits option.splits dest: kv_unlink_keys)


lemma kv_head_free_ev [simp]: "kv_head (free_ev s e) = kv_head s"
  by (simp add: free_ev_def)

lemma reply_sys [simp]: "fst (snd (reply st s c msg)) = s"
  by (simp add: reply_def split: prod.splits option.splits)

lemma store_value_unique:
  "kv_unique (kv_head s) \<Longrightarrow> kv_unique (kv_head (snd (store_value s cmd k v)))"
  by (simp add: store_value_def kv_create_unique kv_update_unique)

lemma cmd_store_unique:
  assumes "kv_unique (kv_head s)"
  shows "kv_unique (kv_head (fst (snd (cmd_store s c cmd k sz))))"
proof -
  have m: "kv_unique (kv_head (snd (malloc s sz)))"
    using assms by (simp add: kv_head_malloc)
  show ?thesis
    using assms m store_value_unique [of s cmd k "[]"]
      store_value_unique [of "snd (malloc s sz)" cmd k "fst (snd (read_n c sz))"]
    by (auto simp: cmd_store_def split: prod.splits bool.splits)
qed

lemma exec_command_unique:
  assumes "kv_unique (kv_head s)"
  shows "kv_unique (kv_head (fst (snd (exec_command s c cmd k sz))))"
proof -
  have r: "fst (snd (cmd_read s c k)) = s"
    by (simp add: cmd_read_def split: option.splits prod.splits)
  have d: "fst (snd (cmd_delete s c k)) = snd (kv_delete s k)"
    by (simp add: cmd_delete_def split: prod.splits)
  show ?thesis
    using assms cmd_store_unique [OF assms] kv_delete_unique [OF assms]
    by (simp add: exec_command_def r d)
qed

lemma serve_line_unique:
  assumes "kv_unique (kv_head s)"
  shows "kv_unique (kv_head (fst (snd (serve_line s c line ln))))"
proof (cases "sscanf_cmd (cstr (rtrim_cr line))")
  case Scan_eof
  with assms show ?thesis
    by (cases "reply Continue s c (''ERR malformed command'' @ [NL])")
       (use reply_sys [of Continue s c "''ERR malformed command'' @ [NL]"] in
         \<open>simp add: serve_line_def Let_def\<close>)
next
  case (Scan1 cmd)
  with assms show ?thesis
    by (cases "reply Continue s c (''ERR malformed command'' @ [NL])")
       (use reply_sys [of Continue s c "''ERR malformed command'' @ [NL]"] in
         \<open>simp add: serve_line_def Let_def\<close>)
next
  case (Scan2 cmd k)
  with exec_command_unique [OF assms, of c "upcase cmd" k 0] show ?thesis
    by (cases "exec_command s c (upcase cmd) k 0") (simp add: serve_line_def Let_def)
next
  case (Scan3 cmd k sz)
  with exec_command_unique [OF assms, of c "upcase cmd" k sz] show ?thesis
    by (cases "exec_command s c (upcase cmd) k sz") (simp add: serve_line_def Let_def)
qed

lemma handle_client_unique:
  "kv_unique (kv_head s) \<Longrightarrow> kv_unique (kv_head (fst (snd (handle_client s c line))))"
proof (induction s c line rule: handle_client.induct)
  case (1 s c line)
  obtain ln line1 c1 where rl: "read_line c line 4096 = (ln, line1, c1)"
    by (cases "read_line c line 4096") auto
  obtain st s2 c2 line2 where sl: "serve_line s c1 line1 ln = (st, s2, c2, line2)"
    by (cases "serve_line s c1 line1 ln") auto
  have u2: "kv_unique (kv_head s2)"
    using serve_line_unique [OF "1.prems", of c1 line1 ln] sl by simp
  show ?case
  proof (cases "ln = 0 \<or> ln < 0")
    case True
    with rl "1.prems" show ?thesis by (auto simp: handle_client.simps [of s c line])
  next
    case False
    show ?thesis
    proof (cases st)
      case Continue
      from False have "ln \<noteq> 0" "\<not> ln < 0" by auto
      from "1.IH" [OF rl [symmetric] refl this sl [symmetric] Continue refl refl u2]
      have "kv_unique (kv_head (fst (snd (handle_client s2 c2 line2))))" .
      with Continue False rl sl show ?thesis
        by (auto simp: handle_client.simps [of s c line])
    next
      case (Return rc)
      with False rl sl u2 show ?thesis by (auto simp: handle_client.simps [of s c line])
    next
      case Killed
      with False rl sl u2 show ?thesis by (auto simp: handle_client.simps [of s c line])
    qed
  qed
qed

lemma accept_loop_unique:
  "kv_unique (kv_head s) \<Longrightarrow> kv_unique (kv_head (fst (accept_loop s acs)))"
proof (induction acs arbitrary: s)
  case Nil
  then show ?case by simp
next
  case (Cons a acs)
  show ?case
  proof (cases a)
    case Accept_fail
    with Cons show ?thesis by simp
  next
    case (Accepted c line)
    obtain rc s1 c1 where h: "handle_client s c line = (rc, s1, c1)"
      by (cases "handle_client s c line") auto
    have u1: "kv_unique (kv_head s1)"
      using handle_client_unique [OF Cons.prems, of c line] h by simp
    show ?thesis
    proof (cases rc)
      case None
      with u1 Accepted h show ?thesis by simp
    next
      case (Some r)
      with Cons.IH [OF u1] Accepted h show ?thesis
        by (cases "accept_loop s1 acs") simp
    qed
  qed
qed


lemma write_n_all: "wr_evs c = [] \<Longrightarrow> write_n c bs = (Some 0, c\<lparr>sent := sent c @ bs\<rparr>)"
  by (cases c; cases bs) (simp_all add: write_n_def)

lemma reply_all: "wr_evs c = [] \<Longrightarrow> reply st s c msg = (st, s, c\<lparr>sent := sent c @ msg\<rparr>)"
  by (simp add: reply_def write_n_all)

lemma read_loop_data: "read_loop (map Data v @ rest) (length v) = (Rd_full, rest, v)"
  by (induction v) auto

lemma read_n_data:
  "rd c = map Data v @ rest \<Longrightarrow> read_n c (length v) = (ssize_of (length v), v, c\<lparr>rd := rest\<rparr>)"
  by (simp add: read_n_def read_loop_data)

lemma kv_create_ok:
  assumes "kv_find (kv_head s) k = None" and "allocs_ok 2 s"
  shows "\<exists>s'. kv_create s k v = (0, s') \<and>
           kv_head s' = \<lparr>key = k, len = length v, val = v\<rparr> # kv_head s \<and>
           heap_log s' = heap_log s @ [Malloc sizeof_KVNode True, Malloc (length v) True]"
proof -
  from assms(2) have "allocs_ok (Suc (Suc 0)) s" by (simp add: numeral_2_eq_2)
  from malloc_ok [OF this, of sizeof_KVNode] obtain s1 where
    m1: "malloc s sizeof_KVNode = (True, s1)" and h1: "kv_head s1 = kv_head s"
    and a1: "allocs_ok (Suc 0) s1" and l1: "heap_log s1 = heap_log s @ [Malloc sizeof_KVNode True]"
    by blast
  from malloc_ok [OF a1, of "length v"] obtain s2 where
    m2: "malloc s1 (length v) = (True, s2)" and h2: "kv_head s2 = kv_head s1"
    and l2: "heap_log s2 = heap_log s1 @ [Malloc (length v) True]"
    by blast
  show ?thesis using assms(1) m1 m2 h1 h2 l1 l2 by (simp add: kv_create_def)
qed

lemma allocs_ok_less: "allocs_ok (Suc n) s \<Longrightarrow> allocs_ok n s"
  using set_take_subset_set_take [of n "Suc n" "mallocs s"]
  by (auto simp: allocs_ok_def)

text \<open>
  Claim C1. For a key that is not in the store and any bytes \<open>v\<close>, \<open>kv_create\<close>
  returns 0 (given that its two allocations succeed), the store then finds for the key
  a node holding exactly \<open>v\<close> with \<open>len = length v\<close>, and a \<open>READ\<close> of the key on a
  socket that accepts the writes sends \<open>OK <length v>\<close>, a newline and the bytes of
  \<open>v\<close>, nothing else. The same on the wire: a \<open>CREATE\<close> whose \<open>length v\<close> value
  bytes arrive is answered with \<open>OK\<close>, and the \<open>READ\<close> that follows sends \<open>v\<close>.
\<close>

theorem create_then_read:
  assumes "kv_find (kv_head s) k = None" and "allocs_ok 3 s" and "wr_evs c = []"
  shows "(\<exists>s'. kv_create s k v = (0, s') \<and>
           kv_find (kv_head s') k = Some \<lparr>key = k, len = length v, val = v\<rparr> \<and>
           exec_command s' c ''READ'' k sz =
             (Continue, s', c\<lparr>sent := sent c @ ''OK '' @ show_nat (length v) @ [NL] @ v\<rparr>)) \<and>
         (rd c = map Data v @ rest \<longrightarrow>
           (\<exists>s'. exec_command s c ''CREATE'' k (length v) =
                   (Continue, s', c\<lparr>rd := rest, sent := sent c @ ''OK'' @ [NL]\<rparr>) \<and>
                 kv_find (kv_head s') k = Some \<lparr>key = k, len = length v, val = v\<rparr> \<and>
                 exec_command s' (c\<lparr>rd := rest, sent := sent c @ ''OK'' @ [NL]\<rparr>) ''READ'' k sz =
                   (Continue, s',
                    c\<lparr>rd := rest,
                      sent := sent c @ ''OK'' @ [NL] @ ''OK '' @ show_nat (length v) @ [NL] @ v\<rparr>)))"
proof -
  have rd_reply: "\<And>s' c'. wr_evs c' = [] \<Longrightarrow>
      kv_find (kv_head s') k = Some \<lparr>key = k, len = length v, val = v\<rparr> \<Longrightarrow>
      exec_command s' c' ''READ'' k sz =
        (Continue, s', c'\<lparr>sent := sent c' @ ''OK '' @ show_nat (length v) @ [NL] @ v\<rparr>)"
    by (simp add: exec_command_def cmd_read_def write_n_all)
  from assms(2) have a2: "allocs_ok 2 s"
    using allocs_ok_less [of 2 s] by (simp add: numeral_3_eq_3 numeral_2_eq_2)
  from kv_create_ok [OF assms(1) a2, of v] obtain s' where
    c: "kv_create s k v = (0, s')" and h: "kv_head s' = \<lparr>key = k, len = length v, val = v\<rparr> # kv_head s"
    by blast
  have f: "kv_find (kv_head s') k = Some \<lparr>key = k, len = length v, val = v\<rparr>"
    by (simp add: h)
  have part1: "\<exists>s'. kv_create s k v = (0, s') \<and>
           kv_find (kv_head s') k = Some \<lparr>key = k, len = length v, val = v\<rparr> \<and>
           exec_command s' c ''READ'' k sz =
             (Continue, s', c\<lparr>sent := sent c @ ''OK '' @ show_nat (length v) @ [NL] @ v\<rparr>)"
    using c f rd_reply [OF assms(3) f] by blast
  have part2: "rd c = map Data v @ rest \<longrightarrow>
           (\<exists>s'. exec_command s c ''CREATE'' k (length v) =
                   (Continue, s', c\<lparr>rd := rest, sent := sent c @ ''OK'' @ [NL]\<rparr>) \<and>
                 kv_find (kv_head s') k = Some \<lparr>key = k, len = length v, val = v\<rparr> \<and>
                 exec_command s' (c\<lparr>rd := rest, sent := sent c @ ''OK'' @ [NL]\<rparr>) ''READ'' k sz =
                   (Continue, s',
                    c\<lparr>rd := rest,
                      sent := sent c @ ''OK'' @ [NL] @ ''OK '' @ show_nat (length v) @ [NL] @ v\<rparr>))"
  proof
    assume r: "rd c = map Data v @ rest"
    let ?c' = "c\<lparr>rd := rest, sent := sent c @ ''OK'' @ [NL]\<rparr>"
    from assms(3) have w': "wr_evs ?c' = []" by simp
    have "\<exists>s'. exec_command s c ''CREATE'' k (length v) = (Continue, s', ?c') \<and>
            kv_find (kv_head s') k = Some \<lparr>key = k, len = length v, val = v\<rparr>"
    proof (cases "v = []")
      case True
      with r have "c\<lparr>rd := rest\<rparr> = c" by simp
      with True c f assms(3) show ?thesis
        by (simp add: exec_command_def cmd_store_def store_value_def store_reply_def reply_all)
    next
      case False
      from assms(2) have "allocs_ok (Suc 2) s" by (simp add: numeral_3_eq_3 numeral_2_eq_2)
      from malloc_ok [OF this, of "length v"] obtain s1 where
        m: "malloc s (length v) = (True, s1)" and h1: "kv_head s1 = kv_head s"
        and a1: "allocs_ok 2 s1"
        by blast
      from assms(1) h1 have "kv_find (kv_head s1) k = None" by simp
      from kv_create_ok [OF this a1, of v] obtain s2 where
        c2: "kv_create s1 k v = (0, s2)"
        and h2: "kv_head s2 = \<lparr>key = k, len = length v, val = v\<rparr> # kv_head s1"
        by blast
      from assms(3) have w: "wr_evs (c\<lparr>rd := rest\<rparr>) = []" by simp
      have "exec_command s c ''CREATE'' k (length v) = (Continue, free_ev s2 (Free_buf v), ?c')"
        using False m c2
        by (simp add: exec_command_def cmd_store_def read_n_data [OF r] store_value_def
            store_reply_def reply_all [OF w])
      moreover have "kv_find (kv_head (free_ev s2 (Free_buf v))) k =
          Some \<lparr>key = k, len = length v, val = v\<rparr>"
        by (simp add: h2)
      ultimately show ?thesis by blast
    qed
    then obtain s3 where e: "exec_command s c ''CREATE'' k (length v) = (Continue, s3, ?c')"
      and f3: "kv_find (kv_head s3) k = Some \<lparr>key = k, len = length v, val = v\<rparr>"
      by blast
    from rd_reply [OF w' f3] e f3
    show "\<exists>s'. exec_command s c ''CREATE'' k (length v) = (Continue, s', ?c') \<and>
                 kv_find (kv_head s') k = Some \<lparr>key = k, len = length v, val = v\<rparr> \<and>
                 exec_command s' ?c' ''READ'' k sz =
                   (Continue, s',
                    c\<lparr>rd := rest,
                      sent := sent c @ ''OK'' @ [NL] @ ''OK '' @ show_nat (length v) @ [NL] @ v\<rparr>)"
      by auto
  qed
  from part1 part2 show ?thesis by blast
qed

text \<open>
  Claim C3. \<open>kv_update\<close> on a present key allocates the replacement first. When that
  allocation fails it returns \<open>-2\<close> and nothing but the allocator has changed: the
  list, and with it the old value and length, are as before and nothing was freed. When
  it succeeds the result is 0, the heap log shows the allocation followed by the release
  of the old buffer, and the node holds the new value and length.
\<close>

theorem kv_update_alloc_first:
  assumes "kv_find (kv_head s) k = Some n"
  shows "(mallocs s = False # ms \<longrightarrow>
            kv_update s k v =
              (- 2, s\<lparr>mallocs := ms, heap_log := heap_log s @ [Malloc (length v) False]\<rparr>)) \<and>
         (allocs_ok 1 s \<longrightarrow>
            (\<exists>s'. kv_update s k v = (0, s') \<and>
               kv_head s' = node_assign (kv_head s) k v \<and>
               kv_find (kv_head s') k = Some (n\<lparr>val := v, len := length v\<rparr>) \<and>
               heap_log s' = heap_log s @ [Malloc (length v) True, Free_buf (val n)]))"
proof (intro conjI impI)
  assume "mallocs s = False # ms"
  with assms show "kv_update s k v =
      (- 2, s\<lparr>mallocs := ms, heap_log := heap_log s @ [Malloc (length v) False]\<rparr>)"
    by (simp add: kv_update_def malloc_def)
next
  assume "allocs_ok 1 s"
  then have "allocs_ok (Suc 0) s" by simp
  from malloc_ok [OF this, of "length v"] obtain s1 where
    m: "malloc s (length v) = (True, s1)" and h: "kv_head s1 = kv_head s"
    and l: "heap_log s1 = heap_log s @ [Malloc (length v) True]"
    by blast
  show "\<exists>s'. kv_update s k v = (0, s') \<and>
               kv_head s' = node_assign (kv_head s) k v \<and>
               kv_find (kv_head s') k = Some (n\<lparr>val := v, len := length v\<rparr>) \<and>
               heap_log s' = heap_log s @ [Malloc (length v) True, Free_buf (val n)]"
    using assms m h l by (simp add: kv_update_def free_ev_def kv_find_node_assign)
qed


theorem create_then_read_witness:
  "kv_find (kv_head (sys0 [])) 7 = None \<and> allocs_ok 3 (sys0 []) \<and>
   wr_evs (conn_of (map Data ''hello'' @ [])) = [] \<and>
   rd (conn_of (map Data ''hello'' @ [])) = map Data ''hello'' @ [] \<and>
   (\<exists>s'. kv_create (sys0 []) 7 ''hello'' = (0, s') \<and>
      kv_find (kv_head s') 7 = Some \<lparr>key = 7, len = length ''hello'', val = ''hello''\<rparr> \<and>
      exec_command s' (conn_of (map Data ''hello'' @ [])) ''READ'' 7 0 =
        (Continue, s',
         (conn_of (map Data ''hello'' @ []))
           \<lparr>sent := sent (conn_of (map Data ''hello'' @ [])) @
              ''OK '' @ show_nat (length ''hello'') @ [NL] @ ''hello''\<rparr>)) \<and>
   (\<exists>s'. exec_command (sys0 []) (conn_of (map Data ''hello'' @ [])) ''CREATE'' 7 (length ''hello'') =
            (Continue, s',
             (conn_of (map Data ''hello'' @ []))
               \<lparr>rd := [], sent := sent (conn_of (map Data ''hello'' @ [])) @ ''OK'' @ [NL]\<rparr>) \<and>
          kv_find (kv_head s') 7 = Some \<lparr>key = 7, len = length ''hello'', val = ''hello''\<rparr> \<and>
          exec_command s'
            ((conn_of (map Data ''hello'' @ []))
               \<lparr>rd := [], sent := sent (conn_of (map Data ''hello'' @ [])) @ ''OK'' @ [NL]\<rparr>)
            ''READ'' 7 0 =
            (Continue, s',
             (conn_of (map Data ''hello'' @ []))
               \<lparr>rd := [],
                  sent := sent (conn_of (map Data ''hello'' @ [])) @ ''OK'' @ [NL] @
                          ''OK '' @ show_nat (length ''hello'') @ [NL] @ ''hello''\<rparr>))"
proof -
  have h1: "kv_find (kv_head (sys0 [])) 7 = None" by (simp add: sys0_def)
  have h2: "allocs_ok 3 (sys0 [])" by (simp add: sys0_def allocs_ok_def)
  have h3: "wr_evs (conn_of (map Data ''hello'' @ [])) = []" by (simp add: conn_of_def)
  have h4: "rd (conn_of (map Data ''hello'' @ [])) = map Data ''hello'' @ []"
    by (simp add: conn_of_def)
  from create_then_read [OF h1 h2 h3, of "''hello''" 0 "[]"] h1 h2 h3 h4 show ?thesis by blast
qed

theorem kv_update_alloc_first_witness:
  "kv_find (kv_head \<lparr>kv_head = [\<lparr>key = 1, len = 2, val = ''ab''\<rparr>], mallocs = [False], heap_log = []\<rparr>) 1
     = Some \<lparr>key = 1, len = 2, val = ''ab''\<rparr> \<and>
   kv_update \<lparr>kv_head = [\<lparr>key = 1, len = 2, val = ''ab''\<rparr>], mallocs = [False], heap_log = []\<rparr> 1 ''xyz''
     = (- 2, \<lparr>kv_head = [\<lparr>key = 1, len = 2, val = ''ab''\<rparr>], mallocs = [], heap_log = [Malloc 3 False]\<rparr>) \<and>
   allocs_ok 1 \<lparr>kv_head = [\<lparr>key = 1, len = 2, val = ''ab''\<rparr>], mallocs = [], heap_log = []\<rparr> \<and>
   kv_update \<lparr>kv_head = [\<lparr>key = 1, len = 2, val = ''ab''\<rparr>], mallocs = [], heap_log = []\<rparr> 1 ''xyz''
     = (0, \<lparr>kv_head = [\<lparr>key = 1, len = 3, val = ''xyz''\<rparr>], mallocs = [],
             heap_log = [Malloc 3 True, Free_buf ''ab'']\<rparr>)"
proof -
  let ?n = "\<lparr>key = 1, len = 2, val = ''ab''\<rparr>"
  let ?s1 = "\<lparr>kv_head = [?n], mallocs = [False], heap_log = []\<rparr>"
  let ?s2 = "\<lparr>kv_head = [?n], mallocs = [], heap_log = []\<rparr>"
  have f1: "kv_find (kv_head ?s1) 1 = Some ?n" by simp
  have f2: "kv_find (kv_head ?s2) 1 = Some ?n" by simp
  have a2: "allocs_ok 1 ?s2" by (simp add: allocs_ok_def)
  from kv_update_alloc_first [OF f1, of "[]" "''xyz''"]
  have r1: "kv_update ?s1 1 ''xyz'' =
      (- 2, \<lparr>kv_head = [?n], mallocs = [], heap_log = [Malloc 3 False]\<rparr>)"
    by simp
  from kv_update_alloc_first [OF f2, of "[]" "''xyz''"] a2
  obtain s' where u: "kv_update ?s2 1 ''xyz'' = (0, s')"
    and h: "kv_head s' = node_assign (kv_head ?s2) 1 ''xyz''"
    and l: "heap_log s' = heap_log ?s2 @ [Malloc 3 True, Free_buf (val ?n)]"
    by auto
  have m: "mallocs s' = []"
    using u by (auto simp: kv_update_def malloc_def free_ev_def)
  have "s' = \<lparr>kv_head = [\<lparr>key = 1, len = 3, val = ''xyz''\<rparr>], mallocs = [],
             heap_log = [Malloc 3 True, Free_buf ''ab'']\<rparr>"
    using h l m by (cases s') simp
  with u f1 r1 a2 show ?thesis by simp
qed

text \<open>
  Claim C2. The store holds at most one node per key: the empty store of start-up does,
  every operation keeps it so (\<open>kv_create\<close>, \<open>kv_update\<close>, \<open>kv_delete\<close>, the
  \<open>READ\<close> branch, and a whole session of \<open>handle_client\<close>), whatever the allocator
  and the sockets do, and so does the store after any sequence of connections served
  from start-up.
\<close>

theorem store_keys_unique:
  "kv_unique (kv_head (sys0 ms)) \<and>
   (kv_unique (kv_head s) \<longrightarrow>
      kv_unique (kv_head (snd (kv_create s k v))) \<and>
      kv_unique (kv_head (snd (kv_update s k v))) \<and>
      kv_unique (kv_head (snd (kv_delete s k))) \<and>
      kv_unique (kv_head (fst (snd (cmd_read s c k)))) \<and>
      kv_unique (kv_head (fst (snd (handle_client s c line))))) \<and>
   kv_unique (kv_head (fst (accept_loop (sys0 ms) acs)))"
proof -
  have e: "kv_unique (kv_head (sys0 ms))" by (simp add: sys0_def kv_unique_def)
  have r: "fst (snd (cmd_read s c k)) = s"
    by (simp add: cmd_read_def split: option.splits prod.splits)
  show ?thesis
    using e accept_loop_unique [OF e, of acs]
    by (simp add: r kv_create_unique kv_update_unique kv_delete_unique handle_client_unique)
qed

theorem store_keys_unique_witness:
  "kv_unique (kv_head \<lparr>kv_head = [\<lparr>key = 1, len = 2, val = ''ab''\<rparr>], mallocs = [], heap_log = []\<rparr>) \<and>
   kv_unique (kv_head (snd (kv_create
      \<lparr>kv_head = [\<lparr>key = 1, len = 2, val = ''ab''\<rparr>], mallocs = [], heap_log = []\<rparr> 2 ''c''))) \<and>
   kv_unique (kv_head (snd (kv_update
      \<lparr>kv_head = [\<lparr>key = 1, len = 2, val = ''ab''\<rparr>], mallocs = [], heap_log = []\<rparr> 2 ''c''))) \<and>
   kv_unique (kv_head (snd (kv_delete
      \<lparr>kv_head = [\<lparr>key = 1, len = 2, val = ''ab''\<rparr>], mallocs = [], heap_log = []\<rparr> 2))) \<and>
   kv_unique (kv_head (fst (snd (handle_client
      \<lparr>kv_head = [\<lparr>key = 1, len = 2, val = ''ab''\<rparr>], mallocs = [], heap_log = []\<rparr>
      \<lparr>rd = [], wr_evs = [], sent = [], closed = False\<rparr> [])))) \<and>
   kv_unique (kv_head (fst (accept_loop (sys0 []) [Accept_fail])))"
proof -
  let ?s = "\<lparr>kv_head = [\<lparr>key = 1, len = 2, val = ''ab''\<rparr>], mallocs = [], heap_log = []\<rparr>"
  have h: "kv_unique (kv_head ?s)" by (simp add: kv_unique_def)
  from store_keys_unique [of "[]" ?s 2 "''c''"
      "\<lparr>rd = [], wr_evs = [], sent = [], closed = False\<rparr>" "[]" "[Accept_fail]"] h
  show ?thesis by blast
qed

section \<open>Replies of the server to single commands\<close>

lemma store_value_create_exists:
  "kv_find (kv_head s) k = Some n \<Longrightarrow> store_value s ''CREATE'' k v = (- 1, s)"
  by (simp add: store_value_def kv_create_def)

text \<open>
  Claim C7. When the key is present, \<open>kv_create\<close> returns \<open>-1\<close> and leaves the whole
  state as it was. On the wire: a \<open>CREATE\<close> for that key whose value bytes arrive in
  full is answered with \<open>ERR key exists\<close>, the list of nodes is unchanged, and a
  \<open>READ\<close> of the key afterwards still sends the length and the bytes of the node that
  was there.
\<close>

theorem create_existing_key:
  assumes "kv_find (kv_head s) k = Some n"
    and "allocs_ok 1 s" and "rd c = map Data v2 @ rest" and "wr_evs c = []"
  shows "kv_create s k v2 = (- 1, s) \<and>
         (\<exists>s'. exec_command s c ''CREATE'' k (length v2) =
                 (Continue, s', c\<lparr>rd := rest, sent := sent c @ ''ERR key exists'' @ [NL]\<rparr>) \<and>
               kv_head s' = kv_head s \<and>
               exec_command s' (c\<lparr>rd := rest, sent := sent c @ ''ERR key exists'' @ [NL]\<rparr>) ''READ'' k 0 =
                 (Continue, s',
                  c\<lparr>rd := rest,
                    sent := sent c @ ''ERR key exists'' @ [NL] @
                            ''OK '' @ show_nat (len n) @ [NL] @ take (len n) (val n)\<rparr>))"
proof -
  let ?c' = "c\<lparr>rd := rest, sent := sent c @ ''ERR key exists'' @ [NL]\<rparr>"
  have kc: "kv_create s k v2 = (- 1, s)"
    using assms(1) by (simp add: kv_create_def)
  have ex: "\<exists>s'. exec_command s c ''CREATE'' k (length v2) = (Continue, s', ?c') \<and> kv_head s' = kv_head s"
  proof (cases "v2 = []")
    case True
    with assms(3) have "c\<lparr>rd := rest\<rparr> = c" by simp
    with True assms(1,4) show ?thesis
      by (simp add: exec_command_def cmd_store_def store_value_create_exists store_reply_def reply_all)
  next
    case False
    from assms(2) have "allocs_ok (Suc 0) s" by simp
    from malloc_ok [OF this, of "length v2"] obtain s1 where
      m: "malloc s (length v2) = (True, s1)" and h: "kv_head s1 = kv_head s"
      by blast
    from assms(1) h have f1: "kv_find (kv_head s1) k = Some n" by simp
    from assms(4) have w: "wr_evs (c\<lparr>rd := rest\<rparr>) = []" by simp
    from False m h show ?thesis
      by (simp add: exec_command_def cmd_store_def read_n_data [OF assms(3)]
          store_value_create_exists [OF f1] store_reply_def reply_all [OF w])
  qed
  then obtain s' where e: "exec_command s c ''CREATE'' k (length v2) = (Continue, s', ?c')"
    and h': "kv_head s' = kv_head s" by blast
  from assms(4) have w': "wr_evs ?c' = []" by simp
  have "exec_command s' ?c' ''READ'' k 0 =
          (Continue, s', c\<lparr>rd := rest,
                    sent := sent c @ ''ERR key exists'' @ [NL] @
                            ''OK '' @ show_nat (len n) @ [NL] @ take (len n) (val n)\<rparr>)"
    using assms(1) h' w' by (simp add: exec_command_def cmd_read_def write_n_all)
  with kc e h' show ?thesis by blast
qed


theorem create_existing_key_witness:
  "kv_find (kv_head store_ab) 1 = Some \<lparr>key = 1, len = 2, val = ''ab''\<rparr> \<and>
   allocs_ok 1 store_ab \<and>
   rd (conn_of (map Data ''xyz'' @ [])) = map Data ''xyz'' @ [] \<and>
   wr_evs (conn_of (map Data ''xyz'' @ [])) = [] \<and>
   kv_create store_ab 1 ''xyz'' = (- 1, store_ab) \<and>
   (\<exists>s'. exec_command store_ab (conn_of (map Data ''xyz'' @ [])) ''CREATE'' 1 (length ''xyz'') =
            (Continue, s',
             (conn_of (map Data ''xyz'' @ []))
               \<lparr>rd := [], sent := sent (conn_of (map Data ''xyz'' @ [])) @ ''ERR key exists'' @ [NL]\<rparr>) \<and>
          kv_head s' = kv_head store_ab \<and>
          exec_command s'
            ((conn_of (map Data ''xyz'' @ []))
               \<lparr>rd := [], sent := sent (conn_of (map Data ''xyz'' @ [])) @ ''ERR key exists'' @ [NL]\<rparr>)
            ''READ'' 1 0 =
            (Continue, s',
             (conn_of (map Data ''xyz'' @ []))
               \<lparr>rd := [],
                  sent := sent (conn_of (map Data ''xyz'' @ [])) @ ''ERR key exists'' @ [NL] @
                          ''OK '' @ show_nat (len \<lparr>key = 1, len = 2, val = ''ab''\<rparr>) @ [NL] @
                          take (len \<lparr>key = 1, len = 2, val = ''ab''\<rparr>)
                            (val \<lparr>key = 1, len = 2, val = ''ab''\<rparr>)\<rparr>))"
proof -
  have h1: "kv_find (kv_head store_ab) 1 = Some \<lparr>key = 1, len = 2, val = ''ab''\<rparr>"
    by (simp add: store_ab_def)
  have h2: "allocs_ok 1 store_ab" by (simp add: allocs_ok_def store_ab_def)
  have h3: "rd (conn_of (map Data ''xyz'' @ [])) = map Data ''xyz'' @ []"
    by (simp add: conn_of_def)
  have h4: "wr_evs (conn_of (map Data ''xyz'' @ [])) = []" by (simp add: conn_of_def)
  from create_existing_key [OF h1 h2 h3 h4] h1 h2 h3 h4 show ?thesis by blast
qed

text \<open>
  Claim C4. Whatever the store holds, an \<open>UPDATE\<close> with size 0 is answered with
  \<open>ERR size must be > 0\<close> and changes nothing. A \<open>CREATE\<close> with size 0 on an absent
  key (the two allocations of \<open>kv_create\<close> succeeding) is answered with \<open>OK\<close> and
  puts a node with the empty value and length 0 at the head of the store, which a
  \<open>READ\<close> then reports as \<open>OK 0\<close>.
\<close>

theorem zero_size_update_and_create:
  assumes "wr_evs c = []"
  shows "exec_command s c ''UPDATE'' k 0 =
           (Continue, s, c\<lparr>sent := sent c @ ''ERR size must be > 0'' @ [NL]\<rparr>) \<and>
         (kv_find (kv_head s) k = None \<and> allocs_ok 2 s \<longrightarrow>
            (\<exists>s'. exec_command s c ''CREATE'' k 0 =
                     (Continue, s', c\<lparr>sent := sent c @ ''OK'' @ [NL]\<rparr>) \<and>
                   kv_head s' = \<lparr>key = k, len = 0, val = []\<rparr> # kv_head s \<and>
                   exec_command s' c ''READ'' k 0 =
                     (Continue, s', c\<lparr>sent := sent c @ ''OK '' @ show_nat 0 @ [NL]\<rparr>)))"
proof (intro conjI impI)
  show "exec_command s c ''UPDATE'' k 0 =
           (Continue, s, c\<lparr>sent := sent c @ ''ERR size must be > 0'' @ [NL]\<rparr>)"
    using assms by (simp add: exec_command_def cmd_store_def reply_all)
next
  assume a: "kv_find (kv_head s) k = None \<and> allocs_ok 2 s"
  then obtain s' where c: "kv_create s k [] = (0, s')"
    and h: "kv_head s' = \<lparr>key = k, len = length ([]::byte list), val = []\<rparr> # kv_head s"
    using kv_create_ok [of s k "[]"] by blast
  have e: "exec_command s c ''CREATE'' k 0 = (Continue, s', c\<lparr>sent := sent c @ ''OK'' @ [NL]\<rparr>)"
    using assms c by (simp add: exec_command_def cmd_store_def store_value_def store_reply_def reply_all)
  have r: "exec_command s' c ''READ'' k 0 =
             (Continue, s', c\<lparr>sent := sent c @ ''OK '' @ show_nat 0 @ [NL]\<rparr>)"
    using assms h by (simp add: exec_command_def cmd_read_def write_n_all)
  from e h r show "\<exists>s'. exec_command s c ''CREATE'' k 0 =
                     (Continue, s', c\<lparr>sent := sent c @ ''OK'' @ [NL]\<rparr>) \<and>
                   kv_head s' = \<lparr>key = k, len = 0, val = []\<rparr> # kv_head s \<and>
                   exec_command s' c ''READ'' k 0 =
                     (Continue, s', c\<lparr>sent := sent c @ ''OK '' @ show_nat 0 @ [NL]\<rparr>)"
    by auto
qed

theorem zero_size_update_and_create_witness:
  "wr_evs (conn_of []) = [] \<and>
   exec_command (sys0 []) (conn_of []) ''UPDATE'' 7 0 =
     (Continue, sys0 [], (conn_of [])\<lparr>sent := sent (conn_of []) @ ''ERR size must be > 0'' @ [NL]\<rparr>) \<and>
   kv_find (kv_head (sys0 [])) 7 = None \<and> allocs_ok 2 (sys0 []) \<and>
   (\<exists>s'. exec_command (sys0 []) (conn_of []) ''CREATE'' 7 0 =
            (Continue, s', (conn_of [])\<lparr>sent := sent (conn_of []) @ ''OK'' @ [NL]\<rparr>) \<and>
          kv_head s' = \<lparr>key = 7, len = 0, val = []\<rparr> # kv_head (sys0 []) \<and>
          exec_command s' (conn_of []) ''READ'' 7 0 =
            (Continue, s', (conn_of [])\<lparr>sent := sent (conn_of []) @ ''OK '' @ show_nat 0 @ [NL]\<rparr>))"
proof -
  have h1: "wr_evs (conn_of []) = []" by (simp add: conn_of_def)
  have h2: "kv_find (kv_head (sys0 [])) 7 = None" by (simp add: sys0_def)
  have h3: "allocs_ok 2 (sys0 [])" by (simp add: sys0_def allocs_ok_def)
  from zero_size_update_and_create [OF h1, of "sys0 []" 7] h1 h2 h3 show ?thesis by blast
qed

section \<open>Control lines: scanning, truncation, and the end of a session\<close>

lemma isdigit_not_space: "isdigit c \<Longrightarrow> \<not> isspace c"
  by (auto simp: isdigit_def isspace_def)

lemma isdigit_not_sign: "isdigit c \<Longrightarrow> c \<noteq> CHR ''-'' \<and> c \<noteq> CHR ''+''"
  by (auto simp: isdigit_def)

lemma scan_number_digits:
  assumes "ds \<noteq> []" and "\<forall>c\<in>set ds. isdigit c"
  shows "scan_number ds = Some (False, decimal ds, [])"
proof -
  from assms obtain d ds' where ds: "ds = d # ds'" by (cases ds) auto
  with assms(2) have "isdigit d" by simp
  then have ns: "d \<noteq> CHR ''-''" "d \<noteq> CHR ''+''" using isdigit_not_sign by auto
  from assms(2) have t: "takeWhile isdigit ds = ds" and d: "dropWhile isdigit ds = []"
    by auto
  show ?thesis
    using ns assms(1) t d unfolding scan_number_def ds [symmetric]
    by (simp add: ds)
qed

lemma sscanf_keyword_key:
  assumes "kw \<noteq> []" and "\<forall>c\<in>set kw. \<not> isspace c" and "length kw \<le> 15"
    and "ds \<noteq> []" and "\<forall>c\<in>set ds. isdigit c"
  shows "sscanf_cmd (kw @ CHR '' '' # ds) = Scan2 kw (to_int32 (to_long False (decimal ds)))"
proof -
  from assms(1,2) have sk: "skip_space (kw @ CHR '' '' # ds) = kw @ CHR '' '' # ds"
    by (cases kw) (auto simp: skip_space_def)
  have sp: "isspace CHR '' ''" by (simp add: isspace_def)
  from assms(2) sp have tk: "takeWhile (\<lambda>c. \<not> isspace c) (kw @ CHR '' '' # ds) = kw"
    by (simp add: takeWhile_tail)
  from assms(1,3) sk tk have cs: "conv_s 15 (kw @ CHR '' '' # ds) = Some (kw, CHR '' '' # ds)"
    by (simp add: conv_s_def Let_def)
  from assms(4,5) sp have sd: "skip_space (CHR '' '' # ds) = ds"
    by (cases ds) (auto simp: skip_space_def isdigit_not_space)
  from sd scan_number_digits [OF assms(4,5)]
  have cd: "conv_d (CHR '' '' # ds) = Some (to_int32 (to_long False (decimal ds)), [])"
    by (simp add: conv_d_def)
  have cz: "conv_zu [] = None"
    by (simp add: conv_zu_def skip_space_def scan_number_def)
  show ?thesis by (simp add: sscanf_cmd_def cs cd cz)
qed


lemma ssize_of_small: "n < 2 ^ 63 \<Longrightarrow> ssize_of n = int n"
  by (simp add: ssize_of_def)

lemma read_line_loop_full:
  "NL \<notin> set l \<Longrightarrow> pos + length l + 1 < maxlen \<Longrightarrow> length buf = maxlen \<Longrightarrow>
   read_line_loop (map Data l @ Data NL # rest) buf pos maxlen =
     (ssize_of (pos + length l), take pos buf @ l @ NUL # drop (pos + length l + 1) buf, rest)"
proof (induction l arbitrary: buf pos)
  case Nil
  then show ?case by (simp add: upd_conv_take_nth_drop)
next
  case (Cons a l)
  from Cons.prems have a: "a \<noteq> NL" and l: "NL \<notin> set l" by auto
  from Cons.prems have p: "pos + 1 < maxlen" and p': "(pos + 1) + length l + 1 < maxlen" by auto
  from Cons.prems have lb: "length (buf[pos := a]) = maxlen" by simp
  from Cons.prems have pl: "pos < length buf" by simp
  have "read_line_loop (map Data (a # l) @ Data NL # rest) buf pos maxlen =
        read_line_loop (map Data l @ Data NL # rest) (buf[pos := a]) (pos + 1) maxlen"
    using a p by simp
  also have "\<dots> = (ssize_of (pos + 1 + length l),
      take (pos + 1) (buf[pos := a]) @ l @ NUL # drop (pos + 1 + length l + 1) (buf[pos := a]), rest)"
    by (rule Cons.IH [OF l p' lb])
  also have "take (pos + 1) (buf[pos := a]) = take pos buf @ [a]"
    using pl by (simp add: take_Suc_conv_app_nth)
  also have "drop (pos + 1 + length l + 1) (buf[pos := a]) = drop (pos + length (a # l) + 1) buf"
    by simp
  finally show ?case by simp
qed

lemma read_line_full:
  assumes "rd c = map Data l @ Data NL # rest" and "NL \<notin> set l"
    and "length l + 1 < maxlen" and "length buf = maxlen" and "maxlen \<le> 2 ^ 63"
  shows "read_line c buf maxlen =
           (int (length l), l @ NUL # drop (Suc (length l)) buf, c\<lparr>rd := rest\<rparr>)"
proof -
  from assms(3,5) have "length l < 2 ^ 63" by simp
  then have "ssize_of (length l) = int (length l)" by (rule ssize_of_small)
  with read_line_loop_full [of l 0 maxlen buf rest] assms show ?thesis
    by (simp add: read_line_def)
qed

lemma cstr_terminated: "NUL \<notin> set l \<Longrightarrow> cstr (l @ NUL # xs) = l"
  by (auto simp: cstr_def takeWhile_tail)

lemma rtrim_cr_id:
  assumes "cstr line \<noteq> []" and "last (cstr line) \<noteq> CR"
  shows "rtrim_cr line = line"
proof -
  let ?n = "length (cstr line)"
  from assms(1) have n: "?n - 1 < ?n" by simp
  then have "cstr line ! (?n - 1) = line ! (?n - 1)"
    unfolding cstr_def by (rule takeWhile_nth)
  moreover from assms(1) have "last (cstr line) = cstr line ! (?n - 1)"
    by (rule last_conv_nth)
  ultimately show ?thesis using assms(2) by (simp add: rtrim_cr_def Let_def)
qed

lemma rtrim_cr_terminated:
  assumes "NUL \<notin> set l" and "l \<noteq> []" and "last l \<noteq> CR"
  shows "rtrim_cr (l @ NUL # xs) = l @ NUL # xs"
proof (rule rtrim_cr_id)
  from assms(1) have c: "cstr (l @ NUL # xs) = l" by (rule cstr_terminated)
  from assms(2) show "cstr (l @ NUL # xs) \<noteq> []" unfolding c .
  from assms(3) show "last (cstr (l @ NUL # xs)) \<noteq> CR" unfolding c .
qed

lemma handle_client_unfold:
  "read_line c line 4096 = (ln, line1, c1) \<Longrightarrow> 0 < ln \<Longrightarrow>
   handle_client s c line =
     (case serve_line s c1 line1 ln of
        (Return rc, s2, c2, line2) \<Rightarrow> (Some rc, s2, c2)
      | (Continue, s2, c2, line2) \<Rightarrow> handle_client s2 c2 line2
      | (Killed, s2, c2, line2) \<Rightarrow> (None, s2, c2))"
  by (simp add: handle_client.simps [of s c line])


lemma read_loop_eof: "length v < n \<Longrightarrow> read_loop (map Data v) n = (Rd_eof, [], v)"
proof (induction v arbitrary: n)
  case Nil
  then show ?case by (cases n) auto
next
  case (Cons a v)
  then obtain m where "n = Suc m" "length v < m" by (cases n) auto
  with Cons.IH [of m] show ?case by simp
qed

lemma ssize_of_inj: "a < 2 ^ 64 \<Longrightarrow> b < 2 ^ 64 \<Longrightarrow> ssize_of a = ssize_of b \<Longrightarrow> a = b"
  by (auto simp: ssize_of_def Let_def split: if_splits)

lemma scan_create_1_5: "sscanf_cmd ''CREATE 1 5'' = Scan3 ''CREATE'' 1 5"
  by (simp add: sscanf_cmd_def conv_s_def conv_d_def conv_zu_def skip_space_def isspace_def
      scan_number_def isdigit_def decimal_def digit_val_def to_int32_def to_long_def to_ulong_def)

lemma scan_read_9: "sscanf_cmd ''READ 9'' = Scan2 ''READ'' 9"
  by (simp add: sscanf_cmd_def conv_s_def conv_d_def conv_zu_def skip_space_def isspace_def
      scan_number_def isdigit_def decimal_def digit_val_def to_int32_def to_long_def)

lemma upcase_CREATE: "upcase ''CREATE'' = ''CREATE''"
  by (simp add: upcase_def upcase_char_def)

lemma upcase_READ: "upcase ''READ'' = ''READ''"
  by (simp add: upcase_def upcase_char_def)

text \<open>
  The pass of the handler's loop over a \<open>CREATE\<close> or \<open>UPDATE\<close> whose input ends
  after the bytes \<open>v\<close>, fewer than the \<open>sz\<close> its control line \<open>l\<close> declares: the
  request buffer is allocated and freed, the store is not touched, and the pass ends in
  the write of \<open>ERR premature EOF on value\<close>, to be followed by \<open>return -1\<close>.
\<close>

lemma premature_eof_pass:
  assumes "rd c = map Data l @ Data NL # map Data v"
    and "NL \<notin> set l" and "length l < 4095" and "length line = 4096"
    and "sscanf_cmd (cstr (rtrim_cr (l @ NUL # drop (Suc (length l)) line))) = Scan3 cmd k sz"
    and "upcase cmd = ''CREATE'' \<or> upcase cmd = ''UPDATE''"
    and "length v < sz" and "sz < 2 ^ 64"
    and "allocs_ok 1 s"
  shows "\<exists>s1. kv_head s1 = kv_head s \<and>
           handle_client s c line =
             (case reply (Return (- 1)) s1 (c\<lparr>rd := []\<rparr>) (''ERR premature EOF on value'' @ [NL]) of
                (Return rc, s2, c2) \<Rightarrow> (Some rc, s2, c2)
              | (Continue, s2, c2) \<Rightarrow> (Some (- 1), s2, c2)
              | (Killed, s2, c2) \<Rightarrow> (None, s2, c2))"
proof -
  let ?line1 = "l @ NUL # drop (Suc (length l)) line"
  let ?c1 = "c\<lparr>rd := map Data v\<rparr>"
  let ?msg = "''ERR premature EOF on value'' @ [NL]"
  have rl: "read_line c line 4096 = (int (length l), ?line1, ?c1)"
    using assms(1-4) by (intro read_line_full) auto
  have "l \<noteq> []"
  proof
    assume "l = []"
    then have "sscanf_cmd (cstr (rtrim_cr ?line1)) = Scan_eof"
      by (simp add: rtrim_cr_def cstr_def sscanf_cmd_def conv_s_def skip_space_def)
    with assms(5) show False by simp
  qed
  then have ln: "0 < int (length l)" by simp
  from assms(9) have "allocs_ok (Suc 0) s" by simp
  from malloc_ok [OF this, of sz] obtain s1 where
    m: "malloc s sz = (True, s1)" and h: "kv_head s1 = kv_head s"
    by blast
  have rn: "read_n ?c1 sz = (ssize_of (length v), v, ?c1\<lparr>rd := []\<rparr>)"
    using read_loop_eof [OF assms(7)] by (simp add: read_n_def)
  from assms(7,8) have ne: "ssize_of (length v) \<noteq> ssize_of sz"
    using ssize_of_inj [of "length v" sz] by auto
  from assms(7) have pos: "0 < sz" by simp
  have cs: "cmd_store s ?c1 (upcase cmd) k sz =
      reply (Return (- 1)) (free_ev s1 (Free_buf v)) (c\<lparr>rd := []\<rparr>) ?msg"
    using pos m rn ne by (simp add: cmd_store_def)
  have sl: "serve_line s ?c1 ?line1 (int (length l)) =
      (case reply (Return (- 1)) (free_ev s1 (Free_buf v)) (c\<lparr>rd := []\<rparr>) ?msg of
         (st, s2, c2) \<Rightarrow> (st, s2, c2, rtrim_cr ?line1))"
    using assms(5,6) cs by (auto simp: serve_line_def Let_def exec_command_def)
  have st: "fst (reply (Return (- 1)) (free_ev s1 (Free_buf v)) (c\<lparr>rd := []\<rparr>) ?msg) \<noteq> Continue"
    by (simp add: reply_def split: prod.splits option.splits)
  have hc: "handle_client s c line =
      (case reply (Return (- 1)) (free_ev s1 (Free_buf v)) (c\<lparr>rd := []\<rparr>) ?msg of
         (Return rc, s2, c2) \<Rightarrow> (Some rc, s2, c2)
       | (Continue, s2, c2) \<Rightarrow> (Some (- 1), s2, c2)
       | (Killed, s2, c2) \<Rightarrow> (None, s2, c2))"
    using handle_client_unfold [OF rl ln, of s] sl st
    by (cases "reply (Return (- 1)) (free_ev s1 (Free_buf v)) (c\<lparr>rd := []\<rparr>) ?msg")
       (auto split: step.splits)
  have "kv_head (free_ev s1 (Free_buf v)) = kv_head s" using h by simp
  with hc show ?thesis by blast
qed

text \<open>
  When the socket accepts that write, the handler has sent the single line
  \<open>ERR premature EOF on value\<close> and returned \<open>-1\<close> with the store as it was, and the
  accept loop closes the connection and goes on with the connections that follow.
\<close>

lemma premature_eof_reply_accepted:
  assumes "rd c = map Data l @ Data NL # map Data v"
    and "NL \<notin> set l" and "length l < 4095" and "length line = 4096"
    and "sscanf_cmd (cstr (rtrim_cr (l @ NUL # drop (Suc (length l)) line))) = Scan3 cmd k sz"
    and "upcase cmd = ''CREATE'' \<or> upcase cmd = ''UPDATE''"
    and "length v < sz" and "sz < 2 ^ 64"
    and "allocs_ok 1 s" and "wr_evs c = []"
  shows "\<exists>s'. handle_client s c line =
                (Some (- 1), s', c\<lparr>rd := [], sent := sent c @ ''ERR premature EOF on value'' @ [NL]\<rparr>) \<and>
              kv_head s' = kv_head s \<and>
              accept_loop s (Accepted c line # acs) =
                (case accept_loop s' acs of
                   (s2, cs, alive) \<Rightarrow>
                     (s2, c\<lparr>rd := [], sent := sent c @ ''ERR premature EOF on value'' @ [NL],
                            closed := True\<rparr> # cs, alive))"
proof -
  from premature_eof_pass [OF assms(1-9)] obtain s1 where h: "kv_head s1 = kv_head s"
    and hc: "handle_client s c line =
             (case reply (Return (- 1)) s1 (c\<lparr>rd := []\<rparr>) (''ERR premature EOF on value'' @ [NL]) of
                (Return rc, s2, c2) \<Rightarrow> (Some rc, s2, c2)
              | (Continue, s2, c2) \<Rightarrow> (Some (- 1), s2, c2)
              | (Killed, s2, c2) \<Rightarrow> (None, s2, c2))"
    by blast
  from assms(10) have w: "wr_evs (c\<lparr>rd := []\<rparr>) = []" by simp
  have hc': "handle_client s c line =
      (Some (- 1), s1, c\<lparr>rd := [], sent := sent c @ ''ERR premature EOF on value'' @ [NL]\<rparr>)"
    unfolding hc reply_all [OF w] by simp
  then have "accept_loop s (Accepted c line # acs) =
                (case accept_loop s1 acs of
                   (s2, cs, alive) \<Rightarrow>
                     (s2, c\<lparr>rd := [], sent := sent c @ ''ERR premature EOF on value'' @ [NL],
                            closed := True\<rparr> # cs, alive))"
    by simp
  with hc' h show ?thesis by blast
qed

text \<open>
  When that write raises \<open>SIGPIPE\<close>, the process is killed inside the handler: the
  line is not sent, the connection is not closed, and the accept loop serves no
  further connection.
\<close>

lemma premature_eof_sigpipe:
  assumes "rd c = map Data l @ Data NL # map Data v"
    and "NL \<notin> set l" and "length l < 4095" and "length line = 4096"
    and "sscanf_cmd (cstr (rtrim_cr (l @ NUL # drop (Suc (length l)) line))) = Scan3 cmd k sz"
    and "upcase cmd = ''CREATE'' \<or> upcase cmd = ''UPDATE''"
    and "length v < sz" and "sz < 2 ^ 64"
    and "allocs_ok 1 s" and "wr_evs c = Wr_sigpipe # es"
  shows "\<exists>s'. handle_client s c line = (None, s', c\<lparr>rd := [], wr_evs := es\<rparr>) \<and>
              kv_head s' = kv_head s \<and>
              accept_loop s (Accepted c line # acs) = (s', [c\<lparr>rd := [], wr_evs := es\<rparr>], False)"
proof -
  from premature_eof_pass [OF assms(1-9)] obtain s1 where h: "kv_head s1 = kv_head s"
    and hc: "handle_client s c line =
             (case reply (Return (- 1)) s1 (c\<lparr>rd := []\<rparr>) (''ERR premature EOF on value'' @ [NL]) of
                (Return rc, s2, c2) \<Rightarrow> (Some rc, s2, c2)
              | (Continue, s2, c2) \<Rightarrow> (Some (- 1), s2, c2)
              | (Killed, s2, c2) \<Rightarrow> (None, s2, c2))"
    by blast
  have r: "reply (Return (- 1)) s1 (c\<lparr>rd := []\<rparr>) (''ERR premature EOF on value'' @ [NL]) =
      (Killed, s1, c\<lparr>rd := [], wr_evs := es\<rparr>)"
    using assms(10) by (simp add: reply_def write_n_def)
  have hc': "handle_client s c line = (None, s1, c\<lparr>rd := [], wr_evs := es\<rparr>)"
    unfolding hc r by simp
  then have "accept_loop s (Accepted c line # acs) = (s1, [c\<lparr>rd := [], wr_evs := es\<rparr>], False)"
    by simp
  with hc' h show ?thesis by blast
qed

text \<open>
  Claim C5. The claim does not hold on the code. On the connection \<open>reset_conn\<close> the
  input ends before the five declared value bytes of the \<open>CREATE\<close> have arrived, and
  the write of \<open>ERR premature EOF on value\<close> raises \<open>SIGPIPE\<close>: the handler does not
  return (\<open>None\<close>), the \<open>ERR\<close> line is not sent, the connection is not closed, and
  the accept loop ends with the server dead and the next connection unserved. The store
  is untouched.
\<close>

theorem premature_eof_after_reset_kills_server:
  "\<exists>s'. handle_client (sys0 []) reset_conn blank_line =
          (None, s', \<lparr>rd = [], wr_evs = [], sent = ''ERR no such key'' @ [NL], closed = False\<rparr>) \<and>
        kv_head s' = [] \<and>
        accept_loop (sys0 [])
          [Accepted reset_conn blank_line, Accepted (conn_of (map Data (''READ 9'' @ [NL]))) blank_line] =
          (s', [\<lparr>rd = [], wr_evs = [], sent = ''ERR no such key'' @ [NL], closed = False\<rparr>], False)"
proof -
  let ?s = "sys0 []"
  let ?rest = "map Data ''CREATE 1 5'' @ Data NL # map Data ''hel''"
  let ?line1 = "''READ 9'' @ NUL # drop (Suc (length ''READ 9'')) blank_line"
  let ?c1 = "reset_conn\<lparr>rd := ?rest\<rparr>"
  let ?c2 = "\<lparr>rd = ?rest, wr_evs = [Wr_sigpipe], sent = ''ERR no such key'' @ [NL], closed = False\<rparr>"
  let ?line2 = "''CREATE 1 5'' @ NUL # drop (Suc (length ''CREATE 1 5'')) ?line1"
  have bl: "length blank_line = 4096" by (simp add: blank_line_def)
  have r0: "rd reset_conn = map Data ''READ 9'' @ Data NL # ?rest"
    by (simp add: reset_conn_def)
  have rl: "read_line reset_conn blank_line 4096 = (int (length ''READ 9''), ?line1, ?c1)"
    using r0 _ _ bl by (rule read_line_full) simp_all
  have cs1: "cstr ?line1 = ''READ 9''" by (rule cstr_terminated) simp
  have rt1: "rtrim_cr ?line1 = ?line1" by (rule rtrim_cr_terminated) simp_all
  have rp: "reply Continue ?s ?c1 (''ERR no such key'' @ [NL]) = (Continue, ?s, ?c2)"
    by (simp add: reply_def write_n_def reset_conn_def)
  have ex: "exec_command ?s ?c1 ''READ'' 9 0 = (Continue, ?s, ?c2)"
    using rp by (simp add: exec_command_def cmd_read_def sys0_def)
  have sl: "serve_line ?s ?c1 ?line1 (int (length ''READ 9'')) = (Continue, ?s, ?c2, ?line1)"
    unfolding serve_line_def Let_def rt1 cs1 scan_read_9 using ex by (simp add: upcase_READ)
  have ln: "0 < int (length ''READ 9'')" by simp
  have step1: "handle_client ?s reset_conn blank_line = handle_client ?s ?c2 ?line1"
    using handle_client_unfold [OF rl ln, of ?s] sl by simp
  have h1: "rd ?c2 = map Data ''CREATE 1 5'' @ Data NL # map Data ''hel''" by simp
  have h2: "NL \<notin> set ''CREATE 1 5''" by simp
  have h3: "length ''CREATE 1 5'' < 4095" by simp
  have h4: "length ?line1 = 4096" by (simp add: blank_line_def)
  have cs2: "cstr ?line2 = ''CREATE 1 5''" by (rule cstr_terminated) simp
  have "rtrim_cr ?line2 = ?line2" by (rule rtrim_cr_terminated) simp_all
  then have h5: "sscanf_cmd (cstr (rtrim_cr ?line2)) = Scan3 ''CREATE'' 1 5"
    by (simp only: cs2 scan_create_1_5)
  have h6: "upcase ''CREATE'' = ''CREATE'' \<or> upcase ''CREATE'' = ''UPDATE''"
    by (simp add: upcase_CREATE)
  have h7: "length ''hel'' < (5::nat)" by simp
  have h8: "(5::nat) < 2 ^ 64" by simp
  have h9: "allocs_ok 1 ?s" by (simp add: allocs_ok_def sys0_def)
  have h10: "wr_evs ?c2 = Wr_sigpipe # []" by simp
  from premature_eof_sigpipe [OF h1 h2 h3 h4 h5 h6 h7 h8 h9 h10]
  obtain s' where k: "handle_client ?s ?c2 ?line1 = (None, s', ?c2\<lparr>rd := [], wr_evs := []\<rparr>)"
    and kh: "kv_head s' = kv_head ?s"
    by blast
  have c': "?c2\<lparr>rd := [], wr_evs := []\<rparr> =
      \<lparr>rd = [], wr_evs = [], sent = ''ERR no such key'' @ [NL], closed = False\<rparr>"
    by simp
  from step1 k c' have hc: "handle_client ?s reset_conn blank_line =
      (None, s', \<lparr>rd = [], wr_evs = [], sent = ''ERR no such key'' @ [NL], closed = False\<rparr>)"
    by simp
  from kh have kh': "kv_head s' = []" by (simp add: sys0_def)
  from hc have "accept_loop ?s
          [Accepted reset_conn blank_line, Accepted (conn_of (map Data (''READ 9'' @ [NL]))) blank_line] =
          (s', [\<lparr>rd = [], wr_evs = [], sent = ''ERR no such key'' @ [NL], closed = False\<rparr>], False)"
    by simp
  with hc kh' show ?thesis by blast
qed

text \<open>
  Claim C10. A control line that is a keyword, one space and a run of digits, with no
  size field, scans as two fields. When the keyword reads \<open>CREATE\<close> in any case and the
  key is absent, the server (the two allocations of \<open>kv_create\<close> succeeding, the socket
  accepting the write) reads no value bytes, puts a node with the empty value under
  the key, replies \<open>OK\<close> and goes on with the next line: no \<open>ERR malformed command\<close>.
\<close>

theorem create_without_size:
  assumes "rd c = map Data (kw @ CHR '' '' # ds) @ Data NL # rest"
    and "length line = 4096" and "length ds < 4000"
    and "list_all (\<lambda>ch. \<not> isspace ch \<and> ch \<noteq> NUL) kw" and "upcase kw = ''CREATE''"
    and "ds \<noteq> []" and "list_all isdigit ds"
    and "kv_find (kv_head s) (to_int32 (to_long False (decimal ds))) = None"
    and "allocs_ok 2 s" and "wr_evs c = []"
  shows "sscanf_cmd (kw @ CHR '' '' # ds) = Scan2 kw (to_int32 (to_long False (decimal ds))) \<and>
         (\<exists>s' line1.
            serve_line s (c\<lparr>rd := rest\<rparr>) line1 (int (length (kw @ CHR '' '' # ds))) =
              (Continue, s', c\<lparr>rd := rest, sent := sent c @ ''OK'' @ [NL]\<rparr>, line1) \<and>
            kv_head s' =
              \<lparr>key = to_int32 (to_long False (decimal ds)), len = 0, val = []\<rparr> # kv_head s \<and>
            handle_client s c line =
              handle_client s' (c\<lparr>rd := rest, sent := sent c @ ''OK'' @ [NL]\<rparr>) line1)"
proof -
  let ?l = "kw @ CHR '' '' # ds"
  let ?K = "to_int32 (to_long False (decimal ds))"
  let ?line1 = "?l @ NUL # drop (Suc (length ?l)) line"
  let ?c1 = "c\<lparr>rd := rest\<rparr>"
  let ?c' = "c\<lparr>rd := rest, sent := sent c @ ''OK'' @ [NL]\<rparr>"
  from assms(5) have "length (upcase kw) = 6" by simp
  then have lk: "length kw = 6" by (simp add: upcase_def)
  then have kne: "kw \<noteq> []" by auto
  from assms(4) have knn: "\<forall>ch\<in>set kw. \<not> isspace ch \<and> ch \<noteq> NUL"
    by (simp add: list_all_iff)
  then have ksp: "\<forall>ch\<in>set kw. \<not> isspace ch" by simp
  from assms(7) have dd: "\<forall>ch\<in>set ds. isdigit ch" by (simp add: list_all_iff)
  have nlsp: "isspace NL" by (simp add: isspace_def)
  have dig: "\<And>ch. isdigit ch \<Longrightarrow> ch \<noteq> NL \<and> ch \<noteq> NUL \<and> ch \<noteq> CR"
    by (auto simp: isdigit_def)
  from ksp nlsp have "NL \<notin> set kw" by auto
  with dd dig have nl: "NL \<notin> set ?l" by auto
  from knn dd dig have nul: "NUL \<notin> set ?l" by auto
  from assms(6) dd dig have lst: "last ?l \<noteq> CR" by simp
  have sc: "sscanf_cmd ?l = Scan2 kw ?K"
    using kne ksp lk assms(6) dd by (intro sscanf_keyword_key) auto
  have rl: "read_line c line 4096 = (int (length ?l), ?line1, ?c1)"
    using assms(1,2,3) nl lk by (intro read_line_full) auto
  have ln: "0 < int (length ?l)" by simp
  have cs: "cstr ?line1 = ?l" using nul by (rule cstr_terminated)
  have rt: "rtrim_cr ?line1 = ?line1"
    using nul _ lst by (rule rtrim_cr_terminated) simp
  from kv_create_ok [OF assms(8,9), of "[]"] obtain s' where
    kc: "kv_create s ?K [] = (0, s')"
    and h: "kv_head s' = \<lparr>key = ?K, len = 0, val = []\<rparr> # kv_head s"
    by auto
  from assms(10) have w: "wr_evs ?c1 = []" by simp
  have ex: "exec_command s ?c1 ''CREATE'' ?K 0 = (Continue, s', ?c')"
    using kc by (simp add: exec_command_def cmd_store_def store_value_def store_reply_def
        reply_all [OF w])
  have sl: "serve_line s ?c1 ?line1 (int (length ?l)) = (Continue, s', ?c', ?line1)"
    unfolding serve_line_def Let_def rt cs sc using ex assms(5) by simp
  have hc: "handle_client s c line = handle_client s' ?c' ?line1"
    using handle_client_unfold [OF rl ln, of s] sl by simp
  from sc sl h hc show ?thesis by blast
qed


theorem create_without_size_witness:
  "rd (conn_of (map Data (''CREATE'' @ CHR '' '' # ''7'') @ Data NL # [])) =
     map Data (''CREATE'' @ CHR '' '' # ''7'') @ Data NL # [] \<and>
   length blank_line = 4096 \<and> length ''7'' < 4000 \<and>
   list_all (\<lambda>ch. \<not> isspace ch \<and> ch \<noteq> NUL) ''CREATE'' \<and> upcase ''CREATE'' = ''CREATE'' \<and>
   ''7'' \<noteq> [] \<and> list_all isdigit ''7'' \<and>
   to_int32 (to_long False (decimal ''7'')) = 7 \<and>
   kv_find (kv_head (sys0 [])) (to_int32 (to_long False (decimal ''7''))) = None \<and>
   allocs_ok 2 (sys0 []) \<and>
   wr_evs (conn_of (map Data (''CREATE'' @ CHR '' '' # ''7'') @ Data NL # [])) = [] \<and>
   sscanf_cmd (''CREATE'' @ CHR '' '' # ''7'') =
     Scan2 ''CREATE'' (to_int32 (to_long False (decimal ''7''))) \<and>
   (\<exists>s' line1.
      serve_line (sys0 []) ((conn_of (map Data (''CREATE'' @ CHR '' '' # ''7'') @ Data NL # []))\<lparr>rd := []\<rparr>)
        line1 (int (length (''CREATE'' @ CHR '' '' # ''7''))) =
        (Continue, s',
         (conn_of (map Data (''CREATE'' @ CHR '' '' # ''7'') @ Data NL # []))
           \<lparr>rd := [],
              sent := sent (conn_of (map Data (''CREATE'' @ CHR '' '' # ''7'') @ Data NL # [])) @
                      ''OK'' @ [NL]\<rparr>,
         line1) \<and>
      kv_head s' =
        \<lparr>key = to_int32 (to_long False (decimal ''7'')), len = 0, val = []\<rparr> # kv_head (sys0 []) \<and>
      handle_client (sys0 []) (conn_of (map Data (''CREATE'' @ CHR '' '' # ''7'') @ Data NL # []))
        blank_line =
        handle_client s'
          ((conn_of (map Data (''CREATE'' @ CHR '' '' # ''7'') @ Data NL # []))
             \<lparr>rd := [],
                sent := sent (conn_of (map Data (''CREATE'' @ CHR '' '' # ''7'') @ Data NL # [])) @
                        ''OK'' @ [NL]\<rparr>)
          line1)"
proof -
  let ?c = "conn_of (map Data (''CREATE'' @ CHR '' '' # ''7'') @ Data NL # [])"
  have h1: "rd ?c = map Data (''CREATE'' @ CHR '' '' # ''7'') @ Data NL # []"
    by (simp add: conn_of_def)
  have h2: "length blank_line = 4096" by (simp add: blank_line_def)
  have h3: "length ''7'' < 4000" by simp
  have h4: "list_all (\<lambda>ch. \<not> isspace ch \<and> ch \<noteq> NUL) ''CREATE''"
    by (simp add: isspace_def)
  have h6: "''7'' \<noteq> []" by simp
  have h7: "list_all isdigit ''7''" by (simp add: isdigit_def)
  have k: "to_int32 (to_long False (decimal ''7'')) = 7"
    by (simp add: to_int32_def to_long_def decimal_def digit_val_def)
  have h8: "kv_find (kv_head (sys0 [])) (to_int32 (to_long False (decimal ''7''))) = None"
    by (simp add: sys0_def)
  have h9: "allocs_ok 2 (sys0 [])" by (simp add: allocs_ok_def sys0_def)
  have h10: "wr_evs ?c = []" by (simp add: conn_of_def)
  from create_without_size [OF h1 h2 h3 h4 upcase_CREATE h6 h7 h8 h9 h10]
    h1 h2 h3 h4 upcase_CREATE h6 h7 k h8 h9 h10
  show ?thesis by blast
qed


lemma data_of_map_Data [simp]: "data_of (map Data xs) = xs"
  by (induction xs) auto

lemma read_line_loop_stop:
  "\<not> pos + 1 < maxlen \<Longrightarrow> read_line_loop es buf pos maxlen = (ssize_of pos, buf[pos := NUL], es)"
  by (cases es) auto

lemma read_line_loop_trunc:
  "Rd_fail \<notin> set pre \<Longrightarrow> NL \<notin> set (data_of pre) \<Longrightarrow> b \<noteq> NL \<Longrightarrow>
   pos + length (data_of pre) + 2 = maxlen \<Longrightarrow> length buf = maxlen \<Longrightarrow>
   read_line_loop (pre @ Data b # rest) buf pos maxlen =
     (ssize_of (maxlen - 1), take pos buf @ data_of pre @ [b, NUL], rest)"
proof (induction pre arbitrary: buf pos)
  case Nil
  then have p: "pos + 2 = maxlen" and lb: "length buf = pos + 2" by auto
  from p have "read_line_loop (Data b # rest) buf pos maxlen =
      read_line_loop rest (buf[pos := b]) (pos + 1) maxlen"
    using Nil.prems(3) by simp
  also have "\<dots> = (ssize_of (pos + 1), buf[pos := b, pos + 1 := NUL], rest)"
    using p by (intro read_line_loop_stop) simp
  also have "buf[pos := b, pos + 1 := NUL] = take pos buf @ [b, NUL]"
    using lb by (simp add: list_eq_iff_nth_eq nth_list_update nth_append less_Suc_eq)
  finally show ?case using p by auto
next
  case (Cons e pre)
  show ?case
  proof (cases e)
    case (Data a)
    with Cons.prems have a: "a \<noteq> NL" and n: "NL \<notin> set (data_of pre)"
      and f: "Rd_fail \<notin> set pre"
      and p: "(pos + 1) + length (data_of pre) + 2 = maxlen" by auto
    from Cons.prems have lb: "length (buf[pos := a]) = maxlen" by simp
    from p Cons.prems(5) have pl: "pos < length buf" by simp
    have "read_line_loop ((e # pre) @ Data b # rest) buf pos maxlen =
          read_line_loop (pre @ Data b # rest) (buf[pos := a]) (pos + 1) maxlen"
      using Data a p by simp
    also have "\<dots> = (ssize_of (maxlen - 1),
        take (pos + 1) (buf[pos := a]) @ data_of pre @ [b, NUL], rest)"
      by (rule Cons.IH [OF f n Cons.prems(3) p lb])
    also have "take (pos + 1) (buf[pos := a]) = take pos buf @ [a]"
      using pl by (simp add: take_Suc_conv_app_nth)
    finally show ?thesis using Data by simp
  next
    case Rd_eintr
    with Cons.prems have n: "NL \<notin> set (data_of pre)" and f: "Rd_fail \<notin> set pre"
      and p: "pos + length (data_of pre) + 2 = maxlen" by auto
    have "read_line_loop ((e # pre) @ Data b # rest) buf pos maxlen =
          read_line_loop (pre @ Data b # rest) buf pos maxlen"
      using Rd_eintr p by simp
    with Cons.IH [OF f n Cons.prems(3) p Cons.prems(5)] Rd_eintr show ?thesis by simp
  next
    case Rd_fail
    with Cons.prems show ?thesis by simp
  qed
qed

text \<open>
  Claim C6. \<open>read_line\<close> on a buffer of \<open>maxlen\<close> bytes (4096 in the server, 8192 in
  the client) never fails because a line is long: when the input delivers
  \<open>maxlen - 1\<close> bytes without a newline (interrupted reads in between or not, and no
  failing read), it stops there, returns \<open>maxlen - 1\<close>, not \<open>-1\<close>, and the buffer
  holds exactly these bytes and the terminator; the input that follows stays unread.
  In the server the handler then runs the command parser on this truncated line.
\<close>

theorem long_line_truncated:
  assumes "rd c = pre @ Data b # rest" and "Rd_fail \<notin> set pre"
    and "NL \<notin> set (data_of pre @ [b])" and "length (data_of pre @ [b]) + 1 = maxlen"
    and "length buf = maxlen" and "maxlen \<le> 2 ^ 63"
  shows "read_line c buf maxlen = (int maxlen - 1, data_of pre @ [b, NUL], c\<lparr>rd := rest\<rparr>) \<and>
         (maxlen = 4096 \<longrightarrow>
            handle_client s c buf =
              (case serve_line s (c\<lparr>rd := rest\<rparr>) (data_of pre @ [b, NUL]) 4095 of
                 (Return rc, s2, c2, line2) \<Rightarrow> (Some rc, s2, c2)
               | (Continue, s2, c2, line2) \<Rightarrow> handle_client s2 c2 line2
               | (Killed, s2, c2, line2) \<Rightarrow> (None, s2, c2)))"
proof -
  from assms(3) have n: "NL \<notin> set (data_of pre)" and b: "b \<noteq> NL" by auto
  from assms(4) have p: "0 + length (data_of pre) + 2 = maxlen" by simp
  from assms(4,6) have "maxlen - 1 < 2 ^ 63" by simp
  then have "ssize_of (maxlen - 1) = int (maxlen - 1)" by (rule ssize_of_small)
  also from assms(4) have "int (maxlen - 1) = int maxlen - 1" by simp
  finally have sz: "ssize_of (maxlen - 1) = int maxlen - 1" .
  have rl: "read_line c buf maxlen = (int maxlen - 1, data_of pre @ [b, NUL], c\<lparr>rd := rest\<rparr>)"
    using read_line_loop_trunc [OF assms(2) n b p assms(5), of rest] assms(1) sz
    by (simp add: read_line_def)
  have "maxlen = 4096 \<longrightarrow>
            handle_client s c buf =
              (case serve_line s (c\<lparr>rd := rest\<rparr>) (data_of pre @ [b, NUL]) 4095 of
                 (Return rc, s2, c2, line2) \<Rightarrow> (Some rc, s2, c2)
               | (Continue, s2, c2, line2) \<Rightarrow> handle_client s2 c2 line2
               | (Killed, s2, c2, line2) \<Rightarrow> (None, s2, c2))"
  proof
    assume m: "maxlen = 4096"
    with rl have "read_line c buf 4096 = (4095, data_of pre @ [b, NUL], c\<lparr>rd := rest\<rparr>)"
      by simp
    from handle_client_unfold [OF this, of s] show "handle_client s c buf =
              (case serve_line s (c\<lparr>rd := rest\<rparr>) (data_of pre @ [b, NUL]) 4095 of
                 (Return rc, s2, c2, line2) \<Rightarrow> (Some rc, s2, c2)
               | (Continue, s2, c2, line2) \<Rightarrow> handle_client s2 c2 line2
               | (Killed, s2, c2, line2) \<Rightarrow> (None, s2, c2))"
      by simp
  qed
  with rl show ?thesis by blast
qed

theorem long_line_truncated_witness:
  "rd (conn_of (map Data (replicate 4094 CHR ''a'') @ Data CHR ''b'' # [Data CHR ''c'', Data NL])) =
     map Data (replicate 4094 CHR ''a'') @ Data CHR ''b'' # [Data CHR ''c'', Data NL] \<and>
   Rd_fail \<notin> set (map Data (replicate 4094 CHR ''a'')) \<and>
   NL \<notin> set (data_of (map Data (replicate 4094 CHR ''a'')) @ [CHR ''b'']) \<and>
   length (data_of (map Data (replicate 4094 CHR ''a'')) @ [CHR ''b'']) + 1 = 4096 \<and>
   length blank_line = 4096 \<and> (4096::nat) \<le> 2 ^ 63 \<and>
   read_line (conn_of (map Data (replicate 4094 CHR ''a'') @ Data CHR ''b'' # [Data CHR ''c'', Data NL]))
     blank_line 4096 =
     (int 4096 - 1, data_of (map Data (replicate 4094 CHR ''a'')) @ [CHR ''b'', NUL],
      (conn_of (map Data (replicate 4094 CHR ''a'') @ Data CHR ''b'' # [Data CHR ''c'', Data NL]))
        \<lparr>rd := [Data CHR ''c'', Data NL]\<rparr>) \<and>
   handle_client (sys0 [])
     (conn_of (map Data (replicate 4094 CHR ''a'') @ Data CHR ''b'' # [Data CHR ''c'', Data NL]))
     blank_line =
     (case serve_line (sys0 [])
             ((conn_of (map Data (replicate 4094 CHR ''a'') @ Data CHR ''b'' # [Data CHR ''c'', Data NL]))
                \<lparr>rd := [Data CHR ''c'', Data NL]\<rparr>)
             (data_of (map Data (replicate 4094 CHR ''a'')) @ [CHR ''b'', NUL]) 4095 of
        (Return rc, s2, c2, line2) \<Rightarrow> (Some rc, s2, c2)
      | (Continue, s2, c2, line2) \<Rightarrow> handle_client s2 c2 line2
      | (Killed, s2, c2, line2) \<Rightarrow> (None, s2, c2))"
proof -
  let ?pre = "map Data (replicate 4094 CHR ''a'')"
  let ?c = "conn_of (?pre @ Data CHR ''b'' # [Data CHR ''c'', Data NL])"
  have h1: "rd ?c = ?pre @ Data CHR ''b'' # [Data CHR ''c'', Data NL]"
    by (simp add: conn_of_def)
  have h2: "Rd_fail \<notin> set ?pre" by auto
  have h3: "NL \<notin> set (data_of ?pre @ [CHR ''b''])"
    by (simp only: data_of_map_Data) simp
  have h4: "length (data_of ?pre @ [CHR ''b'']) + 1 = 4096"
    by (simp only: data_of_map_Data) simp
  have h5: "length blank_line = 4096" by (simp add: blank_line_def)
  have h6: "(4096::nat) \<le> 2 ^ 63" by simp
  from long_line_truncated [OF h1 h2 h3 h4 h5 h6, of "sys0 []"] h1 h2 h3 h4 h5 h6
  show ?thesis by blast
qed

section \<open>The client rejects locally\<close>

text \<open>
  Claim C8. While the client is connected, \<open>connect_to\<close> returns \<open>-2\<close> and leaves
  the whole client state as it was: descriptor, socket, list of network calls. A
  \<open>connect\<close> line that names host and port prints \<open>ERR already connected\<close> and
  changes nothing else; any \<open>connect\<close> line, well formed or not, only prints.
\<close>

theorem connect_while_connected:
  assumes "conn_fd cl \<noteq> - 1"
  shows "connect_to cl host port = (- 2, cl) \<and>
         (command_word line = ''connect'' \<and> scan_connect (line_copy line) = Some (host, port) \<longrightarrow>
            handle_local_command cl line stack =
              cl\<lparr>out := out cl @ ''ERR already connected'' @ [NL]\<rparr>) \<and>
         (command_word line = ''connect'' \<longrightarrow>
            (\<exists>msg. handle_local_command cl line stack = cl\<lparr>out := out cl @ msg\<rparr>))"
proof -
  have ct: "\<And>h p. connect_to cl h p = (- 2, cl)"
    using assms by (simp add: connect_to_def)
  have a: "command_word line = ''connect'' \<and> scan_connect (line_copy line) = Some (host, port) \<longrightarrow>
            handle_local_command cl line stack =
              cl\<lparr>out := out cl @ ''ERR already connected'' @ [NL]\<rparr>"
    by (simp add: handle_local_command_def Let_def ct print_def)
  have b: "command_word line = ''connect'' \<longrightarrow>
            (\<exists>msg. handle_local_command cl line stack = cl\<lparr>out := out cl @ msg\<rparr>)"
    by (cases "scan_connect (line_copy line)")
       (auto simp: handle_local_command_def Let_def ct print_def)
  from ct a b show ?thesis by blast
qed

lemma command_word_connect: "command_word ''connect 127.0.0.1 5000'' = ''connect''"
  by (simp add: command_word_def line_copy_def cstr_def conv_s_def skip_space_def isspace_def
      tolower_char_def)

lemma scan_connect_example:
  "scan_connect (line_copy ''connect 127.0.0.1 5000'') = Some (''127.0.0.1'', 5000)"
  by (simp add: scan_connect_def line_copy_def cstr_def conv_s_def conv_d_def skip_space_def
      isspace_def scan_number_def isdigit_def decimal_def digit_val_def to_int32_def to_long_def)

theorem connect_while_connected_witness:
  "conn_fd client3 \<noteq> - 1 \<and>
   connect_to client3 ''127.0.0.1'' 5000 = (- 2, client3) \<and>
   command_word ''connect 127.0.0.1 5000'' = ''connect'' \<and>
   scan_connect (line_copy ''connect 127.0.0.1 5000'') = Some (''127.0.0.1'', 5000) \<and>
   handle_local_command client3 ''connect 127.0.0.1 5000'' [] =
     client3\<lparr>out := out client3 @ ''ERR already connected'' @ [NL]\<rparr>"
proof -
  have h: "conn_fd client3 \<noteq> - 1" by (simp add: client3_def)
  from connect_while_connected [OF h, of "''127.0.0.1''" 5000 "''connect 127.0.0.1 5000''" "[]"]
    h command_word_connect scan_connect_example
  show ?thesis by blast
qed

lemma dropWhile_word:
  "list_all (\<lambda>c. \<not> isspace c) w \<Longrightarrow> isspace sp \<Longrightarrow>
   dropWhile (\<lambda>c. \<not> isspace c) (w @ sp # r) = sp # r"
  by (simp add: list_all_iff dropWhile_append3)

lemma takeWhile_word:
  "list_all (\<lambda>c. \<not> isspace c) w \<Longrightarrow> isspace sp \<Longrightarrow>
   takeWhile (\<lambda>c. \<not> isspace c) (w @ sp # r) = w"
  by (simp add: list_all_iff takeWhile_tail)

lemma skip_space_word:
  "list_all (\<lambda>c. \<not> isspace c) w \<Longrightarrow> w \<noteq> [] \<Longrightarrow> skip_space (CHR '' '' # w @ r) = w @ r"
  by (cases w) (auto simp: skip_space_def isspace_def)

lemma strtoull_size_digits:
  assumes "st \<noteq> []" and "list_all isdigit st"
  shows "strtoull_size st = to_ulong False (decimal st)"
proof -
  from assms have d: "\<forall>c\<in>set st. isdigit c" by (simp add: list_all_iff)
  from assms(1) d have "skip_space st = st"
    by (cases st) (auto simp: skip_space_def isdigit_not_space)
  with scan_number_digits [OF assms(1) d] show ?thesis
    by (simp add: strtoull_size_def)
qed

lemma split_fields:
  assumes "list_all (\<lambda>c. \<not> isspace c) w"
    and "kt \<noteq> []" and "list_all (\<lambda>c. \<not> isspace c) kt" and "length kt < 64"
    and "st \<noteq> []" and "list_all isdigit st" and "length st < 64"
  shows "split_key_size_value (w @ CHR '' '' # kt @ CHR '' '' # st @ CHR '' '' # v) =
           Some (strtol_int kt, to_ulong False (decimal st), v)"
proof -
  have sp: "isspace CHR '' ''" by (simp add: isspace_def)
  from assms(6) have sn: "list_all (\<lambda>c. \<not> isspace c) st"
    by (auto simp: list_all_iff isdigit_not_space)
  let ?r2 = "st @ CHR '' '' # v"
  let ?r1 = "kt @ CHR '' '' # ?r2"
  have a: "dropWhile (\<lambda>c. \<not> isspace c) (w @ CHR '' '' # ?r1) = CHR '' '' # ?r1"
    using assms(1) sp by (rule dropWhile_word)
  have p1: "skip_space (CHR '' '' # ?r1) = ?r1"
    using assms(3,2) by (rule skip_space_word)
  have kb: "takeWhile (\<lambda>c. \<not> isspace c) ?r1 = kt"
    using assms(3) sp by (rule takeWhile_word)
  have b: "dropWhile (\<lambda>c. \<not> isspace c) ?r1 = CHR '' '' # ?r2"
    using assms(3) sp by (rule dropWhile_word)
  have p2: "skip_space (CHR '' '' # ?r2) = ?r2"
    using sn assms(5) by (rule skip_space_word)
  have sb: "takeWhile (\<lambda>c. \<not> isspace c) ?r2 = st"
    using sn sp by (rule takeWhile_word)
  have p3: "dropWhile (\<lambda>c. \<not> isspace c) ?r2 = CHR '' '' # v"
    using sn sp by (rule dropWhile_word)
  show ?thesis
    unfolding split_key_size_value_def a p1 Let_def kb b p2 sb p3
    using assms(2,4,5,7) sp strtoull_size_digits [OF assms(5,6)] by simp
qed

lemma line_copy_id: "NUL \<notin> set line \<Longrightarrow> length line \<le> 8191 \<Longrightarrow> line_copy line = line"
proof -
  assume a: "NUL \<notin> set line" and b: "length line \<le> 8191"
  from a have t: "takeWhile (\<lambda>c. c \<noteq> NUL) line = line"
    by (auto simp: takeWhile_eq_all_conv)
  show ?thesis unfolding line_copy_def cstr_def t using b by simp
qed

text \<open>
  On a \<open>create\<close> or \<open>update\<close> line, \<open>handle_local_command\<close> compares the size
  and the value text that \<open>split_key_size_value\<close> returns. When they differ it prints
  one \<open>ERR\<close> line and does nothing else: the socket, with all that was sent on it,
  and the list of network calls are as before. (Not connected, the \<open>ERR\<close> line is
  \<open>ERR not connected\<close>.) A line that \<open>split_key_size_value\<close> cannot split is
  rejected in the same way, with the usage message. On a line
  \<open><word> <key> <digits> <value>\<close> with single spaces and no leading blank, the size
  returned is the number the digits spell and the value text is all that follows the
  third space.
\<close>

lemma split_mismatch_rejected:
  assumes "command_word line = ''create'' \<or> command_word line = ''update''"
  shows "(split_key_size_value (line_copy line) = Some (k, sz, v) \<and> length v \<noteq> sz \<longrightarrow>
            handle_local_command cl line stack =
              cl\<lparr>out := out cl @
                (if conn_fd cl = - 1 then ''ERR not connected'' @ [NL]
                 else ''ERR value-size ('' @ show_nat sz @ '') does not match actual length ('' @
                      show_nat (length v) @ '')'' @ [NL])\<rparr>) \<and>
         (split_key_size_value (line_copy line) = None \<longrightarrow>
            handle_local_command cl line stack =
              cl\<lparr>out := out cl @
                (if conn_fd cl = - 1 then ''ERR not connected'' @ [NL]
                 else ''ERR usage: '' @ command_word line @ '' <key> <value-size> <value>'' @ [NL])\<rparr>) \<and>
         (line = w @ CHR '' '' # kt @ CHR '' '' # st @ CHR '' '' # v \<and>
          NUL \<notin> set line \<and> length line \<le> 8191 \<and>
          list_all (\<lambda>c. \<not> isspace c) w \<and>
          kt \<noteq> [] \<and> list_all (\<lambda>c. \<not> isspace c) kt \<and> length kt < 64 \<and>
          st \<noteq> [] \<and> list_all isdigit st \<and> length st < 64 \<and>
          decimal st \<noteq> length v \<longrightarrow>
            handle_local_command cl line stack =
              cl\<lparr>out := out cl @
                (if conn_fd cl = - 1 then ''ERR not connected'' @ [NL]
                 else ''ERR value-size ('' @ show_nat (to_ulong False (decimal st)) @
                      '') does not match actual length ('' @ show_nat (length v) @ '')'' @ [NL])\<rparr>)"
proof -
  have g: "\<And>k sz v. split_key_size_value (line_copy line) = Some (k, sz, v) \<Longrightarrow> length v \<noteq> sz \<Longrightarrow>
            handle_local_command cl line stack =
              cl\<lparr>out := out cl @
                (if conn_fd cl = - 1 then ''ERR not connected'' @ [NL]
                 else ''ERR value-size ('' @ show_nat sz @ '') does not match actual length ('' @
                      show_nat (length v) @ '')'' @ [NL])\<rparr>"
    using assms by (auto simp: handle_local_command_def Let_def print_def)
  have n: "split_key_size_value (line_copy line) = None \<longrightarrow>
            handle_local_command cl line stack =
              cl\<lparr>out := out cl @
                (if conn_fd cl = - 1 then ''ERR not connected'' @ [NL]
                 else ''ERR usage: '' @ command_word line @ '' <key> <value-size> <value>'' @ [NL])\<rparr>"
    using assms by (auto simp: handle_local_command_def Let_def print_def)
  have f: "line = w @ CHR '' '' # kt @ CHR '' '' # st @ CHR '' '' # v \<and>
          NUL \<notin> set line \<and> length line \<le> 8191 \<and>
          list_all (\<lambda>c. \<not> isspace c) w \<and>
          kt \<noteq> [] \<and> list_all (\<lambda>c. \<not> isspace c) kt \<and> length kt < 64 \<and>
          st \<noteq> [] \<and> list_all isdigit st \<and> length st < 64 \<and>
          decimal st \<noteq> length v \<longrightarrow>
            handle_local_command cl line stack =
              cl\<lparr>out := out cl @
                (if conn_fd cl = - 1 then ''ERR not connected'' @ [NL]
                 else ''ERR value-size ('' @ show_nat (to_ulong False (decimal st)) @
                      '') does not match actual length ('' @ show_nat (length v) @ '')'' @ [NL])\<rparr>"
  proof
    assume h: "line = w @ CHR '' '' # kt @ CHR '' '' # st @ CHR '' '' # v \<and>
          NUL \<notin> set line \<and> length line \<le> 8191 \<and>
          list_all (\<lambda>c. \<not> isspace c) w \<and>
          kt \<noteq> [] \<and> list_all (\<lambda>c. \<not> isspace c) kt \<and> length kt < 64 \<and>
          st \<noteq> [] \<and> list_all isdigit st \<and> length st < 64 \<and>
          decimal st \<noteq> length v"
    then have lc: "line_copy line = line" by (intro line_copy_id) auto
    from h have "split_key_size_value line = Some (strtol_int kt, to_ulong False (decimal st), v)"
      using split_fields [of w kt st v] by blast
    then have sf: "split_key_size_value (line_copy line) =
        Some (strtol_int kt, to_ulong False (decimal st), v)"
      by (simp only: lc)
    from h have "length v \<le> 8191" by auto
    with h have "length v \<noteq> to_ulong False (decimal st)"
      by (auto simp: to_ulong_def)
    from g [OF sf this] show "handle_local_command cl line stack =
              cl\<lparr>out := out cl @
                (if conn_fd cl = - 1 then ''ERR not connected'' @ [NL]
                 else ''ERR value-size ('' @ show_nat (to_ulong False (decimal st)) @
                      '') does not match actual length ('' @ show_nat (length v) @ '')'' @ [NL])\<rparr>" .
  qed
  from g n f show ?thesis by blast
qed

lemma command_word_create: "command_word ''create 1 5 abc'' = ''create''"
  by (simp add: command_word_def line_copy_def cstr_def conv_s_def skip_space_def isspace_def
      tolower_char_def)

lemma split_example:
  "split_key_size_value (line_copy ''create 1 5 abc'') = Some (1, 5, ''abc'')"
  by (simp add: split_key_size_value_def line_copy_def cstr_def skip_space_def isspace_def
      strtol_int_def strtoull_size_def scan_number_def isdigit_def decimal_def digit_val_def
      to_int32_def to_long_def to_ulong_def Let_def)

lemma split_mismatch_rejected_example:
  "command_word ''create 1 5 abc'' = ''create'' \<and>
   split_key_size_value (line_copy ''create 1 5 abc'') = Some (1, 5, ''abc'') \<and>
   length ''abc'' \<noteq> (5::nat) \<and> conn_fd client3 \<noteq> - 1 \<and>
   ''create 1 5 abc'' = ''create'' @ CHR '' '' # ''1'' @ CHR '' '' # ''5'' @ CHR '' '' # ''abc'' \<and>
   NUL \<notin> set ''create 1 5 abc'' \<and> length ''create 1 5 abc'' \<le> 8191 \<and>
   list_all (\<lambda>c. \<not> isspace c) ''create'' \<and>
   ''1'' \<noteq> [] \<and> list_all (\<lambda>c. \<not> isspace c) ''1'' \<and> length ''1'' < 64 \<and>
   ''5'' \<noteq> [] \<and> list_all isdigit ''5'' \<and> length ''5'' < 64 \<and>
   decimal ''5'' \<noteq> length ''abc'' \<and>
   handle_local_command client3 ''create 1 5 abc'' [] =
     client3\<lparr>out := out client3 @
        (if conn_fd client3 = - 1 then ''ERR not connected'' @ [NL]
         else ''ERR value-size ('' @ show_nat 5 @ '') does not match actual length ('' @
              show_nat (length ''abc'') @ '')'' @ [NL])\<rparr> \<and>
   handle_local_command client3 ''create 1 5 abc'' [] =
     client3\<lparr>out := out client3 @
        (if conn_fd client3 = - 1 then ''ERR not connected'' @ [NL]
         else ''ERR value-size ('' @ show_nat (to_ulong False (decimal ''5'')) @
              '') does not match actual length ('' @ show_nat (length ''abc'') @ '')'' @ [NL])\<rparr>"
proof -
  let ?L = "''create 1 5 abc''"
  have h1: "command_word ?L = ''create'' \<or> command_word ?L = ''update''"
    by (simp add: command_word_create)
  have h3: "length ''abc'' \<noteq> (5::nat)" by simp
  have h4: "conn_fd client3 \<noteq> - 1" by (simp add: client3_def)
  have g1: "?L = ''create'' @ CHR '' '' # ''1'' @ CHR '' '' # ''5'' @ CHR '' '' # ''abc''"
    by simp
  have g2: "NUL \<notin> set ?L" by simp
  have g3: "length ?L \<le> 8191" by simp
  have g4: "list_all (\<lambda>c. \<not> isspace c) ''create''" by (simp add: isspace_def)
  have g5: "''1'' \<noteq> []" "list_all (\<lambda>c. \<not> isspace c) ''1''" "length ''1'' < 64"
    by (simp_all add: isspace_def)
  have g6: "''5'' \<noteq> []" "list_all isdigit ''5''" "length ''5'' < 64"
    by (simp_all add: isdigit_def)
  have g7: "decimal ''5'' \<noteq> length ''abc''" by (simp add: decimal_def digit_val_def)
  note T = split_mismatch_rejected [OF h1, of 1 5 "''abc''" client3 "[]" "''create''" "''1''" "''5''"]
  from T split_example h3 have r1: "handle_local_command client3 ?L [] =
     client3\<lparr>out := out client3 @
        (if conn_fd client3 = - 1 then ''ERR not connected'' @ [NL]
         else ''ERR value-size ('' @ show_nat 5 @ '') does not match actual length ('' @
              show_nat (length ''abc'') @ '')'' @ [NL])\<rparr>"
    by blast
  from T g1 g2 g3 g4 g5 g6 g7 have r2: "handle_local_command client3 ?L [] =
     client3\<lparr>out := out client3 @
        (if conn_fd client3 = - 1 then ''ERR not connected'' @ [NL]
         else ''ERR value-size ('' @ show_nat (to_ulong False (decimal ''5'')) @
              '') does not match actual length ('' @ show_nat (length ''abc'') @ '')'' @ [NL])\<rparr>"
    by blast
  from command_word_create split_example h3 h4 g1 g2 g3 g4 g5 g6 g7 r1 r2
  show ?thesis by blast
qed

text \<open>
  Claim C9. The claim does not hold on the code. The line \<open> create 5 5 abc\<close> starts
  with a blank. Read field by field, as \<open>sscanf\<close> reads it, it is the command
  \<open>create\<close> with key 5, declared size 5 and the value text \<open>abc\<close> of three bytes:
  the size does not match. \<open>handle_local_command\<close> finds the command word with
  \<open>sscanf\<close>, which skips the blank, but \<open>split_key_size_value\<close> does not skip it:
  it takes \<open>create\<close> for the key, the first \<open>5\<close> for the size and \<open>5 abc\<close>, five
  bytes, for the value. So nothing is rejected, and the client sends \<open>CREATE 0 5\<close>
  and the five bytes \<open>5 abc\<close>.
\<close>

theorem leading_blank_mismatch_is_sent:
  "command_word '' create 5 5 abc'' = ''create'' \<and>
   split_key_size_value (line_copy '' create 5 5 abc'') = Some (0, 5, ''5 abc'') \<and>
   handle_local_command client3 '' create 5 5 abc'' [] =
     client3\<lparr>sock := (conn_of [])\<lparr>sent := ''CREATE 0 5'' @ [NL] @ ''5 abc''\<rparr>,
              err := ''ERROR: server closed or read error'' @ [NL]\<rparr>"
proof -
  have cw: "command_word '' create 5 5 abc'' = ''create''"
    by (simp add: command_word_def line_copy_def cstr_def conv_s_def skip_space_def isspace_def
        tolower_char_def)
  have sp: "split_key_size_value (line_copy '' create 5 5 abc'') = Some (0, 5, ''5 abc'')"
    by (simp add: split_key_size_value_def line_copy_def cstr_def skip_space_def isspace_def
        strtol_int_def strtoull_size_def scan_number_def isdigit_def decimal_def digit_val_def
        to_int32_def to_long_def to_ulong_def Let_def)
  have sn: "show_int 0 = ''0''" "show_nat 5 = ''5''"
    by code_simp+
  have sd: "send_cmd_with_optional_value client3 (''CREATE 0 5'' @ [NL]) (Some ''5 abc'') 5 =
      (Some 0, client3\<lparr>sock := (conn_of [])\<lparr>sent := ''CREATE 0 5'' @ [NL] @ ''5 abc''\<rparr>\<rparr>)"
    by (simp add: send_cmd_with_optional_value_def client3_def conn_of_def write_n_def)
  have rv: "recv_status_and_optional_value
      (client3\<lparr>sock := (conn_of [])\<lparr>sent := ''CREATE 0 5'' @ [NL] @ ''5 abc''\<rparr>\<rparr>) [] =
      (- 1, client3\<lparr>sock := (conn_of [])\<lparr>sent := ''CREATE 0 5'' @ [NL] @ ''5 abc''\<rparr>,
                   err := ''ERROR: server closed or read error'' @ [NL]\<rparr>)"
    by (simp add: recv_status_and_optional_value_def client3_def conn_of_def read_line_def)
  have hl: "handle_local_command client3 '' create 5 5 abc'' [] =
     client3\<lparr>sock := (conn_of [])\<lparr>sent := ''CREATE 0 5'' @ [NL] @ ''5 abc''\<rparr>,
              err := ''ERROR: server closed or read error'' @ [NL]\<rparr>"
    unfolding handle_local_command_def Let_def cw sp
    using sd rv by (simp add: sn client3_def)
  from cw sp hl show ?thesis by simp
qed

end
